theory Spec2Isabelle
  imports Main "HOL-Library.Sublist" "HOL-Library.Multiset"
begin

section \<open>Values and exceptions of the Python program\<close>

text \<open>
  The program \<^verbatim>\<open>oddsview.py\<close> works on the values that \<^verbatim>\<open>json.loads\<close> and
  \<^verbatim>\<open>requests.Response.json\<close> produce: \<^verbatim>\<open>None\<close>, booleans, integers, floats, strings, lists
  and dictionaries with string keys. A dictionary is an association list in insertion
  order (Python dictionaries iterate in insertion order and their keys are distinct).
  Floats are never inspected by the program, so their type is left opaque.
\<close>

typedecl pyfloat

datatype json =
    JNull
  | JBool bool
  | JInt int
  | JFloat pyfloat
  | JStr string
  | JArr "json list"
  | JObj "(string \<times> json) list"

text \<open>The exception classes that the program can meet. Each constructor stands for the
  class and its subclasses (\<^verbatim>\<open>ConnectionClosed\<close> is a \<^verbatim>\<open>WebSocketException\<close>).\<close>

datatype exn =
    KeyError
  | TypeError
  | AttributeError
  | JSONDecodeError
  | RequestException
  | WebSocketException
  | OSError

text \<open>\<^verbatim>\<open>v[key]\<close> for a string key: a dictionary raises \<^verbatim>\<open>KeyError\<close> when the key is
  missing; lists and strings want integer indices, the other values are not
  subscriptable (\<^verbatim>\<open>TypeError\<close> in both cases).\<close>

definition subscript :: "json \<Rightarrow> string \<Rightarrow> exn + json" where
  "subscript v key =
     (case v of
        JObj d \<Rightarrow> (case map_of d key of None \<Rightarrow> Inl KeyError | Some x \<Rightarrow> Inr x)
      | _ \<Rightarrow> Inl TypeError)"

text \<open>\<^verbatim>\<open>v.items()\<close>: only a dictionary has the attribute.\<close>

definition items :: "json \<Rightarrow> exn + (string \<times> json) list" where
  "items v = (case v of JObj d \<Rightarrow> Inr d | _ \<Rightarrow> Inl AttributeError)"

text \<open>\<^verbatim>\<open>for x in v\<close>: a list yields its elements, a dictionary its keys, a string its
  characters; the other values are not iterable.\<close>

definition py_iter :: "json \<Rightarrow> exn + json list" where
  "py_iter v =
     (case v of
        JArr xs \<Rightarrow> Inr xs
      | JObj d \<Rightarrow> Inr (map (\<lambda>kv. JStr (fst kv)) d)
      | JStr s \<Rightarrow> Inr (map (\<lambda>c. JStr [c]) s)
      | _ \<Rightarrow> Inl TypeError)"

text \<open>Lists and dictionaries are unhashable; every other JSON value is hashable.\<close>

definition hashable :: "json \<Rightarrow> bool" where
  "hashable v = (case v of JArr _ \<Rightarrow> False | JObj _ \<Rightarrow> False | _ \<Rightarrow> True)"

text \<open>\<^verbatim>\<open>k in d.keys()\<close> and \<^verbatim>\<open>d[k]\<close> for a dictionary \<open>d\<close> with string keys and any
  value \<open>k\<close>: an unhashable \<open>k\<close> raises \<^verbatim>\<open>TypeError\<close>; a hashable value that is not a
  string equals no string.\<close>

definition in_keys :: "json \<Rightarrow> (string \<times> 'v) list \<Rightarrow> exn + bool" where
  "in_keys k d =
     (if hashable k
      then Inr (case k of JStr s \<Rightarrow> s \<in> set (map fst d) | _ \<Rightarrow> False)
      else Inl TypeError)"

definition getitem :: "(string \<times> 'v) list \<Rightarrow> json \<Rightarrow> exn + 'v" where
  "getitem d k =
     (if hashable k
      then (case k of
              JStr s \<Rightarrow> (case map_of d s of None \<Rightarrow> Inl KeyError | Some x \<Rightarrow> Inr x)
            | _ \<Rightarrow> Inl KeyError)
      else Inl TypeError)"

section \<open>Channel derivation: \<^verbatim>\<open>get_game_channels\<close>\<close>

definition CHANNEL_TITLES :: "(string \<times> string list) list" where
  "CHANNEL_TITLES =
     [(''MONEYLINE'', [''best_ml'', ''moneyline'']),
      (''SPREAD'', [''best_ms'', ''spread''])]"

text \<open>An element of \<^verbatim>\<open>games_to_stream\<close>: the dictionary with the two keys
  \<^verbatim>\<open>"game_id"\<close> and \<^verbatim>\<open>"channels"\<close>.\<close>

record game =
  game_id :: json
  channels :: "string list"

text \<open>The innermost loop (lines 118-119): one \<^verbatim>\<open>append\<close> per channel title.\<close>

fun titles_loop :: "string list \<Rightarrow> string \<Rightarrow> string list \<Rightarrow> string list" where
  "titles_loop [] outcome_id chs = chs"
| "titles_loop (channel_title # rest) outcome_id chs =
     titles_loop rest outcome_id (chs @ [channel_title @ ''.'' @ outcome_id])"

text \<open>The loop over \<^verbatim>\<open>market["outcomes"].items()\<close> (lines 117-119). The source looks
  \<^verbatim>\<open>CHANNEL_TITLES[market["market_type"]]\<close> up again for every outcome.\<close>

fun outcomes_loop :: "(string \<times> json) list \<Rightarrow> json \<Rightarrow> string list \<Rightarrow> exn + string list" where
  "outcomes_loop [] market chs = Inr chs"
| "outcomes_loop ((outcome_id, outcome) # rest) market chs =
     (case subscript market ''market_type'' of
        Inl e \<Rightarrow> Inl e
      | Inr market_type \<Rightarrow>
          (case getitem CHANNEL_TITLES market_type of
             Inl e \<Rightarrow> Inl e
           | Inr titles \<Rightarrow> outcomes_loop rest market (titles_loop titles outcome_id chs)))"

text \<open>The body of the loop over the markets of a game (lines 116-119).\<close>

definition market_step :: "json \<Rightarrow> string list \<Rightarrow> exn + string list" where
  "market_step market chs =
     (case subscript market ''market_type'' of
        Inl e \<Rightarrow> Inl e
      | Inr market_type \<Rightarrow>
          (case in_keys market_type CHANNEL_TITLES of
             Inl e \<Rightarrow> Inl e
           | Inr recognized \<Rightarrow>
               if recognized then
                 (case subscript market ''outcomes'' of
                    Inl e \<Rightarrow> Inl e
                  | Inr outcomes \<Rightarrow>
                      (case items outcomes of
                         Inl e \<Rightarrow> Inl e
                       | Inr its \<Rightarrow> outcomes_loop its market chs))
               else Inr chs))"

fun markets_loop :: "(string \<times> json) list \<Rightarrow> string list \<Rightarrow> exn + string list" where
  "markets_loop [] chs = Inr chs"
| "markets_loop ((market_id, market) # rest) chs =
     (case market_step market chs of
        Inl e \<Rightarrow> Inl e
      | Inr chs' \<Rightarrow> markets_loop rest chs')"

text \<open>The body of the loop over the live games (lines 112-120).\<close>

definition game_step :: "json \<Rightarrow> exn + game" where
  "game_step live_game =
     (case subscript live_game ''game_id'' of
        Inl e \<Rightarrow> Inl e
      | Inr gid \<Rightarrow>
          (case subscript live_game ''markets'' of
             Inl e \<Rightarrow> Inl e
           | Inr markets \<Rightarrow>
               (case items markets of
                  Inl e \<Rightarrow> Inl e
                | Inr ms \<Rightarrow>
                    (case markets_loop ms [] of
                       Inl e \<Rightarrow> Inl e
                     | Inr chs \<Rightarrow> Inr \<lparr>game_id = gid, channels = chs\<rparr>))))"

fun games_loop :: "json list \<Rightarrow> game list \<Rightarrow> exn + game list" where
  "games_loop [] games_to_stream = Inr games_to_stream"
| "games_loop (live_game # rest) games_to_stream =
     (case game_step live_game of
        Inl e \<Rightarrow> Inl e
      | Inr g \<Rightarrow> games_loop rest (games_to_stream @ [g]))"

definition get_game_channels :: "json \<Rightarrow> exn + game list" where
  "get_game_channels live_games =
     (case py_iter live_games of
        Inl e \<Rightarrow> Inl e
      | Inr gs \<Rightarrow> games_loop gs [])"

section \<open>Catalog fetch: \<^verbatim>\<open>get_live_games\<close>\<close>

definition live_games_uri :: string where
  "live_games_uri = ''https://49pzwry2rc.execute-api.us-east-1.amazonaws.com/prod/getLiveGames''"

definition ws_uri :: string where
  "ws_uri = ''wss://ws.openodds.gg/ws''"

text \<open>\<^verbatim>\<open>d[k] = v\<close> on an insertion-ordered dictionary: an existing key keeps its
  position, a new key goes to the end.\<close>

fun setitem :: "(string \<times> 'v) list \<Rightarrow> string \<Rightarrow> 'v \<Rightarrow> (string \<times> 'v) list" where
  "setitem [] k v = [(k, v)]"
| "setitem ((k', v') # d) k v =
     (if k' = k then (k, v) # d else (k', v') # setitem d k v)"

text \<open>Lines 82-86. The arguments are \<^verbatim>\<open>Optional[str]\<close>; \<^verbatim>\<open>if sport:\<close> is false for
  \<^verbatim>\<open>None\<close> and for the empty string.\<close>

definition query_params :: "string option \<Rightarrow> string option \<Rightarrow> (string \<times> string) list" where
  "query_params sport live =
     (let params = [];
          params = (case sport of
                      None \<Rightarrow> params
                    | Some s \<Rightarrow> if s \<noteq> [] then setitem params ''sport'' s else params);
          params = (case live of
                      None \<Rightarrow> params
                    | Some l \<Rightarrow> if l \<noteq> [] then setitem params ''live'' l else params)
      in params)"

text \<open>The HTTP data source is a parameter: \<open>http uri params\<close> is what
  \<^verbatim>\<open>requests.get(uri, params=params).json()\<close> evaluates to, the parsed body or the
  exception of a failed request or of a body that is not JSON.\<close>

type_synonym http = "string \<Rightarrow> (string \<times> string) list \<Rightarrow> exn + json"

definition get_live_games :: "http \<Rightarrow> string option \<Rightarrow> string option \<Rightarrow> exn + json" where
  "get_live_games http sport live =
     (case http live_games_uri (query_params sport live) of
        Inl e \<Rightarrow> Inl e
      | Inr response \<Rightarrow>
          (case subscript response ''body'' of
             Inl e \<Rightarrow> Inl e
           | Inr body \<Rightarrow> subscript body ''live_games''))"

section \<open>Task construction: \<^verbatim>\<open>live_odds_stream\<close>\<close>

text \<open>A task is one call \<^verbatim>\<open>stream(uri=..., subscription_payload=json.dumps(d))\<close> handed to
  \<^verbatim>\<open>asyncio.create_task\<close>. The payload is kept as the dictionary \<open>d\<close> that is serialised;
  \<^verbatim>\<open>json.dumps\<close> itself is library code and maps different dictionaries to different
  texts.\<close>

record task =
  uri :: string
  subscription_payload :: json

definition filter_message :: json where
  "filter_message =
     JObj [(''filtered_sportsbooks'', JArr [JStr ''PINNY'']), (''action'', JStr ''filter'')]"

definition subscribe_message :: "string \<Rightarrow> json" where
  "subscribe_message channel = JObj [(''channel'', JStr channel), (''action'', JStr ''subscribe'')]"

definition filter_task :: task where
  "filter_task = \<lparr>uri = ws_uri, subscription_payload = filter_message\<rparr>"

definition subscribe_task :: "string \<Rightarrow> task" where
  "subscribe_task channel = \<lparr>uri = ws_uri, subscription_payload = subscribe_message channel\<rparr>"

text \<open>A replacement field \<^verbatim>\<open>{v}\<close> of an f-string: a string is inserted as it is; for
  any other value Python inserts \<^verbatim>\<open>str(v)\<close>, which is the parameter \<open>str_of\<close>.\<close>

definition format_value :: "(json \<Rightarrow> string) \<Rightarrow> json \<Rightarrow> string" where
  "format_value str_of v = (case v of JStr s \<Rightarrow> s | _ \<Rightarrow> str_of v)"

definition game_state_task :: "(json \<Rightarrow> string) \<Rightarrow> json \<Rightarrow> task" where
  "game_state_task str_of gid = subscribe_task (''game_state.'' @ format_value str_of gid)"

text \<open>Lines 149-155.\<close>

fun channels_loop :: "string list \<Rightarrow> task list \<Rightarrow> task list" where
  "channels_loop [] tasks = tasks"
| "channels_loop (channel # rest) tasks = channels_loop rest (tasks @ [subscribe_task channel])"

text \<open>Lines 141-155.\<close>

fun game_tasks_loop :: "(json \<Rightarrow> string) \<Rightarrow> game list \<Rightarrow> task list \<Rightarrow> task list" where
  "game_tasks_loop str_of [] tasks = tasks"
| "game_tasks_loop str_of (g # rest) tasks =
     game_tasks_loop str_of rest
       (channels_loop (channels g) (tasks @ [game_state_task str_of (game_id g)]))"

text \<open>Lines 135-155: the list \<^verbatim>\<open>tasks\<close> starts with the global filter task.\<close>

definition build_tasks :: "(json \<Rightarrow> string) \<Rightarrow> game list \<Rightarrow> task list" where
  "build_tasks str_of games = game_tasks_loop str_of games [filter_task]"

text \<open>Lines 130-155. The result is the list of the tasks created and the exception that
  leaves the coroutine, if any. Printing the catalog (line 131) creates no task and
  cannot fail on a parsed JSON value; it is left out.\<close>

definition live_odds_stream :: "http \<Rightarrow> (json \<Rightarrow> string) \<Rightarrow> task list \<times> exn option" where
  "live_odds_stream http str_of =
     (case get_live_games http None None of
        Inl e \<Rightarrow> ([], Some e)
      | Inr live_games \<Rightarrow>
          (case get_game_channels live_games of
             Inl e \<Rightarrow> ([], Some e)
           | Inr games \<Rightarrow> (build_tasks str_of games, None)))"

section \<open>The subscription runner: \<^verbatim>\<open>stream\<close>\<close>

text \<open>What a task does that can be observed: the calls on its connection and the lines
  it prints. \<open>PrintError e\<close> is \<^verbatim>\<open>print(f"Error: {e}")\<close>, \<open>PrintExc e\<close> is
  \<^verbatim>\<open>print_exc()\<close>.\<close>

datatype action =
    Connect string
  | Send json
  | PrintValue json
  | PrintBlank
  | PrintError exn
  | PrintExc exn
  | Close

text \<open>The server side of one connection: whether \<^verbatim>\<open>connect\<close>, \<^verbatim>\<open>send\<close> and
  \<^verbatim>\<open>close\<close> raise, and what the \<open>i\<close>-th call of \<^verbatim>\<open>recv\<close> does.\<close>

datatype recv_event = Message string | Raises exn

record connection =
  ws_connect :: "exn option"
  ws_send :: "exn option"
  ws_recv :: "nat \<Rightarrow> recv_event"
  ws_close :: "exn option"

text \<open>The loop \<^verbatim>\<open>while True\<close> has no exit but \<^verbatim>\<open>break\<close>, so a run is cut after a number
  of iterations (the fuel): \<open>OutOfFuel\<close> carries what has been done until then.\<close>

datatype outcome =
    OutOfFuel "action list"
  | Returned "action list"
  | Raised exn "action list"

text \<open>What an outcome says has been done.\<close>

fun actions_of :: "outcome \<Rightarrow> action list" where
  "actions_of (OutOfFuel tr) = tr"
| "actions_of (Returned tr) = tr"
| "actions_of (Raised e tr) = tr"

text \<open>Lines 37-43; \<open>json_loads\<close> is \<^verbatim>\<open>json.loads\<close>, with \<open>None\<close> for a text that is
  not JSON.\<close>

definition handle_message :: "(string \<Rightarrow> json option) \<Rightarrow> string \<Rightarrow> exn + action list" where
  "handle_message json_loads message =
     (case json_loads message of
        None \<Rightarrow> Inl JSONDecodeError
      | Some message_json \<Rightarrow>
          (case subscript message_json ''channel'' of
             Inl e \<Rightarrow> Inl e
           | Inr channel \<Rightarrow>
               (case subscript message_json ''payload'' of
                  Inl e \<Rightarrow> Inl e
                | Inr payload \<Rightarrow> Inr [PrintValue channel, PrintValue payload, PrintBlank])))"

text \<open>Lines 34-49: the body of the inner \<^verbatim>\<open>try\<close>, then its two handlers.\<close>

fun recv_loop ::
  "nat \<Rightarrow> (string \<Rightarrow> json option) \<Rightarrow> (nat \<Rightarrow> recv_event) \<Rightarrow> nat \<Rightarrow> action list \<Rightarrow> outcome" where
  "recv_loop 0 json_loads rcv i tr = OutOfFuel tr"
| "recv_loop (Suc fuel) json_loads rcv i tr =
     (case (case rcv i of
              Raises e \<Rightarrow> Inl e
            | Message message \<Rightarrow> handle_message json_loads message) of
        Inr out \<Rightarrow> recv_loop fuel json_loads rcv (Suc i) (tr @ out)
      | Inl e \<Rightarrow>
          if e = WebSocketException then Returned (tr @ [PrintExc e])
          else recv_loop fuel json_loads rcv (Suc i) (tr @ [PrintError e, PrintExc e]))"

text \<open>Lines 31-51: the body of the outer \<^verbatim>\<open>try\<close>.\<close>

definition stream_body :: "nat \<Rightarrow> (string \<Rightarrow> json option) \<Rightarrow> connection \<Rightarrow> task \<Rightarrow> outcome" where
  "stream_body fuel json_loads conn t =
     (case ws_connect conn of
        Some e \<Rightarrow> Raised e [Connect (uri t)]
      | None \<Rightarrow>
          (case ws_send conn of
             Some e \<Rightarrow> Raised e [Connect (uri t), Send (subscription_payload t)]
           | None \<Rightarrow>
               (case recv_loop fuel json_loads (ws_recv conn) 0
                       [Connect (uri t), Send (subscription_payload t)] of
                  Returned tr \<Rightarrow>
                    (case ws_close conn of
                       Some e \<Rightarrow> Raised e (tr @ [Close])
                     | None \<Rightarrow> Returned (tr @ [Close]))
                | r \<Rightarrow> r)))"

text \<open>Lines 30-54: the outer handler catches every exception of the body.\<close>

definition stream :: "nat \<Rightarrow> (string \<Rightarrow> json option) \<Rightarrow> connection \<Rightarrow> task \<Rightarrow> outcome" where
  "stream fuel json_loads conn t =
     (case stream_body fuel json_loads conn t of
        Raised e tr \<Rightarrow> Returned (tr @ [PrintError e, PrintExc e])
      | r \<Rightarrow> r)"

text \<open>Line 157, \<^verbatim>\<open>[await task for task in tasks]\<close>, and what \<^verbatim>\<open>asyncio.run\<close> (line 164)
  does when the coroutine ends. The tasks are awaited in the order of the list:
  \<^item> a task that has returned lets the next one be awaited;
  \<^item> a task that is still in its loop keeps the orchestrator waiting, and every task goes
    on undisturbed;
  \<^item> a task that has raised makes \<^verbatim>\<open>await task\<close> raise the same exception, which leaves
    \<^verbatim>\<open>live_odds_stream\<close> and \<^verbatim>\<open>main\<close>; \<^verbatim>\<open>asyncio.run\<close> then cancels the tasks that are still
    running.
  The result is what has become of each task and the exception that left the orchestrator,
  if any.\<close>

datatype fate = Ran outcome | Cancelled "action list"

definition cancel :: "outcome \<Rightarrow> fate" where
  "cancel r = (case r of OutOfFuel tr \<Rightarrow> Cancelled tr | _ \<Rightarrow> Ran r)"

fun await_loop :: "outcome list \<Rightarrow> fate list \<times> exn option" where
  "await_loop [] = ([], None)"
| "await_loop (r # rest) =
     (case r of
        Returned tr \<Rightarrow> (case await_loop rest of (fates, x) \<Rightarrow> (Ran r # fates, x))
      | OutOfFuel tr \<Rightarrow> (Ran r # map Ran rest, None)
      | Raised e tr \<Rightarrow> (Ran r # map cancel rest, Some e))"

text \<open>Every task runs \<^verbatim>\<open>stream\<close> on a connection of its own; the tasks share no variable.
  \<open>sched k\<close> gives the \<open>k\<close>-th task the number of loop iterations it is observed for and
  its connection.\<close>

definition run_tasks ::
  "(string \<Rightarrow> json option) \<Rightarrow> (nat \<Rightarrow> nat \<times> connection) \<Rightarrow> task list \<Rightarrow> outcome list" where
  "run_tasks json_loads sched tasks =
     map (\<lambda>(k, t). stream (fst (sched k)) json_loads (snd (sched k)) t) (enumerate 0 tasks)"

definition await_tasks ::
  "(string \<Rightarrow> json option) \<Rightarrow> (nat \<Rightarrow> nat \<times> connection) \<Rightarrow> task list
     \<Rightarrow> fate list \<times> exn option" where
  "await_tasks json_loads sched tasks = await_loop (run_tasks json_loads sched tasks)"

section \<open>The loops in closed form\<close>

lemma titles_loop_eq:
  "titles_loop titles outcome_id chs = chs @ map (\<lambda>t. t @ ''.'' @ outcome_id) titles"
  by (induction titles arbitrary: chs) simp_all

lemma outcomes_loop_eq:
  assumes "subscript market ''market_type'' = Inr mt"
    and "getitem CHANNEL_TITLES mt = Inr titles"
  shows "outcomes_loop its market chs =
     Inr (chs @ concat (map (\<lambda>kv. map (\<lambda>t. t @ ''.'' @ fst kv) titles) its))"
  using assms
  by (induction its arbitrary: chs) (auto simp: titles_loop_eq)

lemma markets_loop_append:
  "markets_loop (ms1 @ ms2) chs =
     (case markets_loop ms1 chs of Inl e \<Rightarrow> Inl e | Inr chs' \<Rightarrow> markets_loop ms2 chs')"
  by (induction ms1 arbitrary: chs) (auto split: sum.splits)

lemma games_loop_acc:
  "games_loop gs acc = (case games_loop gs [] of Inl e \<Rightarrow> Inl e | Inr r \<Rightarrow> Inr (acc @ r))"
proof (induction gs arbitrary: acc)
  case Nil
  show ?case by simp
next
  case (Cons g gs)
  show ?case
  proof (cases "game_step g")
    case (Inl e)
    then show ?thesis by simp
  next
    case (Inr g')
    have l: "games_loop (g # gs) acc = games_loop gs (acc @ [g'])"
      using Inr by simp
    have r: "games_loop (g # gs) [] = games_loop gs [g']"
      using Inr by simp
    show ?thesis
      unfolding l r
      using Cons.IH [of "acc @ [g']"] Cons.IH [of "[g']"]
      by (cases "games_loop gs []") simp_all
  qed
qed

lemma games_loop_Cons:
  "games_loop (g # gs) [] =
     (case game_step g of Inl e \<Rightarrow> Inl e
      | Inr g' \<Rightarrow> (case games_loop gs [] of Inl e \<Rightarrow> Inl e | Inr r \<Rightarrow> Inr (g' # r)))"
proof (cases "game_step g")
  case (Inl e)
  then show ?thesis by simp
next
  case (Inr g')
  then have "games_loop (g # gs) [] = games_loop gs [g']" by simp
  then show ?thesis
    using Inr games_loop_acc [of gs "[g']"] by (cases "games_loop gs []") simp_all
qed

lemma games_loop_Inr:
  "games_loop gs [] = Inr r \<longleftrightarrow> list_all2 (\<lambda>g g'. game_step g = Inr g') gs r"
proof (induction gs arbitrary: r)
  case Nil
  show ?case by auto
next
  case (Cons g gs)
  show ?case
  proof (cases "game_step g")
    case (Inl e)
    then show ?thesis unfolding games_loop_Cons by (cases r) simp_all
  next
    case (Inr g')
    show ?thesis
    proof (cases "games_loop gs []")
      case (Inl e)
      with Cons.IH have "\<And>r'. \<not> list_all2 (\<lambda>g g'. game_step g = Inr g') gs r'" by simp
      with Inl Inr show ?thesis unfolding games_loop_Cons by (cases r) simp_all
    next
      case r': (Inr r')
      with Cons.IH have "\<And>r''. list_all2 (\<lambda>g g'. game_step g = Inr g') gs r'' \<longleftrightarrow> r' = r''"
        by auto
      with r' Inr show ?thesis unfolding games_loop_Cons by (cases r) auto
    qed
  qed
qed

lemma get_game_channels_JArr:
  "get_game_channels (JArr gs) = Inr r \<longleftrightarrow> list_all2 (\<lambda>g g'. game_step g = Inr g') gs r"
  by (simp add: get_game_channels_def py_iter_def games_loop_Inr)

lemma channels_loop_eq:
  "channels_loop chs tasks = tasks @ map subscribe_task chs"
  by (induction chs arbitrary: tasks) simp_all

lemma game_tasks_loop_eq:
  "game_tasks_loop str_of gs tasks =
     tasks @ concat (map (\<lambda>g. game_state_task str_of (game_id g) # map subscribe_task (channels g)) gs)"
  by (induction gs arbitrary: tasks) (simp_all add: channels_loop_eq)

lemma in_keys_titles:
  "in_keys mt CHANNEL_TITLES = Inr False \<longleftrightarrow>
     hashable mt \<and> mt \<noteq> JStr ''MONEYLINE'' \<and> mt \<noteq> JStr ''SPREAD''"
  by (cases mt) (auto simp: in_keys_def hashable_def CHANNEL_TITLES_def)

lemma market_step_unrecognized:
  assumes "subscript market ''market_type'' = Inr mt"
    and "in_keys mt CHANNEL_TITLES = Inr False"
  shows "market_step market chs = Inr chs"
  using assms by (simp add: market_step_def)


lemma in_keys_recognized:
  assumes "in_keys mt CHANNEL_TITLES = Inr True"
  shows "getitem CHANNEL_TITLES mt = Inr [''best_ml'', ''moneyline''] \<or>
         getitem CHANNEL_TITLES mt = Inr [''best_ms'', ''spread'']"
  using assms
  by (cases mt) (auto simp: in_keys_def getitem_def hashable_def CHANNEL_TITLES_def split: if_splits)

lemma market_step_no_game_state:
  assumes "market_step market chs = Inr r"
    and "\<forall>c\<in>set chs. \<not> prefix ''game_state.'' c"
  shows "\<forall>c\<in>set r. \<not> prefix ''game_state.'' c"
proof (cases "subscript market ''market_type''")
  case (Inl e)
  with assms(1) show ?thesis by (simp add: market_step_def)
next
  case (Inr mt)
  show ?thesis
  proof (cases "in_keys mt CHANNEL_TITLES = Inr True")
    case False
    with Inr assms show ?thesis
      by (auto simp: market_step_def split: sum.splits if_splits)
  next
    case True
    from assms(1) Inr True obtain its where
      loop: "outcomes_loop its market chs = Inr r"
      by (auto simp: market_step_def split: sum.splits)
    from in_keys_recognized [OF True] show ?thesis
    proof
      assume "getitem CHANNEL_TITLES mt = Inr [''best_ml'', ''moneyline'']"
      from outcomes_loop_eq [OF Inr this, of its chs] loop assms(2)
      show ?thesis by auto
    next
      assume "getitem CHANNEL_TITLES mt = Inr [''best_ms'', ''spread'']"
      from outcomes_loop_eq [OF Inr this, of its chs] loop assms(2)
      show ?thesis by auto
    qed
  qed
qed

lemma markets_loop_no_game_state:
  "markets_loop ms chs = Inr r \<Longrightarrow> \<forall>c\<in>set chs. \<not> prefix ''game_state.'' c \<Longrightarrow>
     \<forall>c\<in>set r. \<not> prefix ''game_state.'' c"
proof (induction ms arbitrary: chs)
  case Nil
  then show ?case by simp
next
  case (Cons m ms)
  obtain market_id market where m: "m = (market_id, market)" by (cases m)
  from Cons.prems(1) m obtain chs' where
    step: "market_step market chs = Inr chs'" and rest: "markets_loop ms chs' = Inr r"
    by (auto split: sum.splits)
  from market_step_no_game_state [OF step Cons.prems(2)]
  show ?case by (rule Cons.IH [OF rest])
qed

lemma game_step_no_game_state:
  assumes "game_step live_game = Inr g"
  shows "\<forall>c\<in>set (channels g). \<not> prefix ''game_state.'' c"
proof -
  from assms obtain ms where "markets_loop ms [] = Inr (channels g)"
    by (auto simp: game_step_def split: sum.splits)
  from markets_loop_no_game_state [OF this] show ?thesis by simp
qed

lemma game_step_game_id:
  "game_step live_game = Inr g \<Longrightarrow> subscript live_game ''game_id'' = Inr (game_id g)"
  by (auto simp: game_step_def split: sum.splits)

lemma markets_loop_all_unrecognized:
  assumes "\<forall>m\<in>snd ` set ms. \<exists>mt. subscript m ''market_type'' = Inr mt \<and>
              in_keys mt CHANNEL_TITLES = Inr False"
  shows "markets_loop ms chs = Inr chs"
  using assms
proof (induction ms)
  case Nil
  show ?case by simp
next
  case (Cons m ms)
  obtain market_id market where m: "m = (market_id, market)" by (cases m)
  from Cons.prems m obtain mt where "subscript market ''market_type'' = Inr mt"
    and "in_keys mt CHANNEL_TITLES = Inr False" by auto
  then have "market_step market chs = Inr chs" by (rule market_step_unrecognized)
  moreover have "markets_loop ms chs = Inr chs" using Cons by simp
  ultimately show ?case using m by simp
qed

lemma games_loop_all_unrecognized:
  assumes "\<forall>g\<in>set live_games. \<exists>gid ms.
              subscript g ''game_id'' = Inr gid \<and> subscript g ''markets'' = Inr (JObj ms) \<and>
              (\<forall>m\<in>snd ` set ms. \<exists>mt. subscript m ''market_type'' = Inr mt \<and>
                  in_keys mt CHANNEL_TITLES = Inr False)"
  shows "\<exists>games. games_loop live_games [] = Inr games \<and> (\<forall>g\<in>set games. channels g = [])"
  using assms
proof (induction live_games)
  case Nil
  show ?case by simp
next
  case (Cons g gs)
  from Cons.prems obtain gid ms where
    g: "subscript g ''game_id'' = Inr gid" "subscript g ''markets'' = Inr (JObj ms)"
    and ms: "\<forall>m\<in>snd ` set ms. \<exists>mt. subscript m ''market_type'' = Inr mt \<and>
                  in_keys mt CHANNEL_TITLES = Inr False"
    by auto
  have step: "game_step g = Inr \<lparr>game_id = gid, channels = []\<rparr>"
    using g markets_loop_all_unrecognized [OF ms, of "[]"]
    by (simp add: game_step_def items_def)
  from Cons obtain games where
    rest: "games_loop gs [] = Inr games" and empty: "\<forall>g\<in>set games. channels g = []"
    by auto
  have "games_loop (g # gs) [] = Inr (\<lparr>game_id = gid, channels = []\<rparr> # games)"
    unfolding games_loop_Cons using step rest by simp
  with empty show ?case by simp
qed


lemma mset_game_segments:
  "mset (concat (map (\<lambda>g. f g # map h (channels g)) games)) =
     mset (map f games) + mset (concat (map (\<lambda>g. map h (channels g)) games))"
  by (induction games) simp_all


lemma market_step_returns:
  assumes "subscript market ''market_type'' = Inr mt"
    and "in_keys mt CHANNEL_TITLES = Inr False \<or>
         (in_keys mt CHANNEL_TITLES = Inr True \<and> (\<exists>outs. subscript market ''outcomes'' = Inr (JObj outs)))"
  shows "\<exists>r. market_step market chs = Inr r"
  using assms(2)
proof
  assume "in_keys mt CHANNEL_TITLES = Inr False"
  with assms(1) have "market_step market chs = Inr chs" by (rule market_step_unrecognized)
  then show ?thesis ..
next
  assume a: "in_keys mt CHANNEL_TITLES = Inr True \<and>
      (\<exists>outs. subscript market ''outcomes'' = Inr (JObj outs))"
  then obtain outs where outs: "subscript market ''outcomes'' = Inr (JObj outs)" by blast
  from a in_keys_recognized obtain titles where "getitem CHANNEL_TITLES mt = Inr titles" by blast
  from outcomes_loop_eq [OF assms(1) this, of outs chs] obtain r where
    "outcomes_loop outs market chs = Inr r" by blast
  with assms(1) a outs have "market_step market chs = Inr r"
    by (simp add: market_step_def items_def)
  then show ?thesis ..
qed

lemma markets_loop_returns:
  assumes "\<forall>m\<in>snd ` set ms. \<exists>mt. subscript m ''market_type'' = Inr mt \<and>
      (in_keys mt CHANNEL_TITLES = Inr False \<or>
       (in_keys mt CHANNEL_TITLES = Inr True \<and> (\<exists>outs. subscript m ''outcomes'' = Inr (JObj outs))))"
  shows "\<exists>r. markets_loop ms chs = Inr r"
  using assms
proof (induction ms arbitrary: chs)
  case Nil
  show ?case by simp
next
  case (Cons m ms)
  obtain market_id market where m: "m = (market_id, market)" by (cases m)
  from Cons.prems m obtain mt where "subscript market ''market_type'' = Inr mt"
    and "in_keys mt CHANNEL_TITLES = Inr False \<or>
       (in_keys mt CHANNEL_TITLES = Inr True \<and> (\<exists>outs. subscript market ''outcomes'' = Inr (JObj outs)))"
    by auto
  from market_step_returns [OF this] obtain chs' where step: "market_step market chs = Inr chs'"
    by blast
  from Cons.IH [of chs'] Cons.prems obtain r where "markets_loop ms chs' = Inr r" by auto
  with step m have "markets_loop (m # ms) chs = Inr r" by simp
  then show ?case ..
qed

lemma games_loop_returns:
  assumes "\<forall>g\<in>set live_games. \<exists>gid ms.
      subscript g ''game_id'' = Inr gid \<and> subscript g ''markets'' = Inr (JObj ms) \<and>
      (\<forall>m\<in>snd ` set ms. \<exists>mt. subscript m ''market_type'' = Inr mt \<and>
          (in_keys mt CHANNEL_TITLES = Inr False \<or>
           (in_keys mt CHANNEL_TITLES = Inr True \<and>
            (\<exists>outs. subscript m ''outcomes'' = Inr (JObj outs)))))"
  shows "\<exists>games. games_loop live_games [] = Inr games"
  using assms
proof (induction live_games)
  case Nil
  show ?case by simp
next
  case (Cons g gs)
  from Cons.prems obtain gid ms where
    g: "subscript g ''game_id'' = Inr gid" "subscript g ''markets'' = Inr (JObj ms)"
    and ms: "\<forall>m\<in>snd ` set ms. \<exists>mt. subscript m ''market_type'' = Inr mt \<and>
          (in_keys mt CHANNEL_TITLES = Inr False \<or>
           (in_keys mt CHANNEL_TITLES = Inr True \<and>
            (\<exists>outs. subscript m ''outcomes'' = Inr (JObj outs))))"
    by auto
  from markets_loop_returns [OF ms, of "[]"] obtain chs where "markets_loop ms [] = Inr chs"
    by blast
  with g have step: "game_step g = Inr \<lparr>game_id = gid, channels = chs\<rparr>"
    by (simp add: game_step_def items_def)
  from Cons obtain games where "games_loop gs [] = Inr games" by auto
  with step have "games_loop (g # gs) [] = Inr (\<lparr>game_id = gid, channels = chs\<rparr> # games)"
    unfolding games_loop_Cons by simp
  then show ?case ..
qed

lemma game_tasks_loop_payloads:
  "game_tasks_loop str_of games tasks =
     tasks @ map (\<lambda>c. \<lparr>uri = ws_uri,
                        subscription_payload =
                          JObj [(''channel'', JStr c), (''action'', JStr ''subscribe'')]\<rparr>)
               (concat (map (\<lambda>g. (''game_state.'' @ format_value str_of (game_id g)) # channels g)
                  games))"
  by (induction games arbitrary: tasks)
     (simp_all add: channels_loop_eq game_state_task_def subscribe_task_def subscribe_message_def)

lemma one_game_state_name:
  assumes "\<forall>c\<in>set chs. \<not> prefix ''game_state.'' c"
  shows "filter (prefix ''game_state.'') ((''game_state.'' @ x) # chs) = [''game_state.'' @ x]"
proof -
  from assms have "filter (prefix ''game_state.'') chs = []" by (simp add: filter_empty_conv)
  then show ?thesis by simp
qed

lemma count_game_state_names:
  assumes "\<forall>g\<in>set games. \<forall>c\<in>set (channels g). \<not> prefix ''game_state.'' c"
  shows "length (filter (prefix ''game_state.'')
           (concat (map (\<lambda>g. (''game_state.'' @ f g) # channels g) games))) = length games"
  using assms
proof (induction games)
  case Nil
  show ?case by simp
next
  case (Cons g games)
  from Cons.prems have "filter (prefix ''game_state.'') (channels g) = []"
    by (simp add: filter_empty_conv)
  with Cons show ?case by simp
qed

section \<open>Channel derivation: properties\<close>

text \<open>
  C1. A game with one market of type \<^verbatim>\<open>MONEYLINE\<close> whose outcomes iterate in the order
  \<open>o1\<close>, \<open>o2\<close>, and with no other market of a recognized type (in particular a game whose
  only market it is): wherever the game stands in the catalog, \<^verbatim>\<open>get_game_channels\<close> gives it
  the channels \<open>best_ml.o1\<close>, \<open>moneyline.o1\<close>, \<open>best_ml.o2\<close>, \<open>moneyline.o2\<close>, in this order (the
  outcome loop is the outer one, the loop over the titles the inner one).
\<close>

theorem moneyline_channels_order:
  assumes "subscript live_game ''game_id'' = Inr gid"
    and "subscript live_game ''markets'' = Inr (JObj (ms1 @ (market_id, market) # ms2))"
    and "\<forall>m\<in>snd ` set (ms1 @ ms2). \<exists>mt. subscript m ''market_type'' = Inr mt \<and>
            in_keys mt CHANNEL_TITLES = Inr False"
    and "subscript market ''market_type'' = Inr (JStr ''MONEYLINE'')"
    and "subscript market ''outcomes'' = Inr (JObj [(o1, x1), (o2, x2)])"
    and "get_game_channels (JArr (before @ live_game # after)) = Inr games"
  shows "games ! length before =
     \<lparr>game_id = gid,
      channels = [''best_ml.'' @ o1, ''moneyline.'' @ o1, ''best_ml.'' @ o2, ''moneyline.'' @ o2]\<rparr>"
proof -
  let ?chs = "[''best_ml.'' @ o1, ''moneyline.'' @ o1, ''best_ml.'' @ o2, ''moneyline.'' @ o2]"
  have titles: "getitem CHANNEL_TITLES (JStr ''MONEYLINE'') = Inr [''best_ml'', ''moneyline'']"
    by (simp add: getitem_def hashable_def CHANNEL_TITLES_def)
  have rec: "in_keys (JStr ''MONEYLINE'') CHANNEL_TITLES = Inr True"
    by (simp add: in_keys_def hashable_def CHANNEL_TITLES_def)
  have market: "market_step market [] = Inr ?chs"
    using assms(4,5) rec outcomes_loop_eq [OF assms(4) titles]
    by (simp add: market_step_def items_def)
  have before: "markets_loop ms1 [] = Inr []"
    using assms(3) by (intro markets_loop_all_unrecognized) auto
  have after: "markets_loop ms2 ?chs = Inr ?chs"
    using assms(3) by (intro markets_loop_all_unrecognized) auto
  have "markets_loop (ms1 @ (market_id, market) # ms2) [] = Inr ?chs"
    using before market after by (simp add: markets_loop_append)
  then have step: "game_step live_game = Inr \<lparr>game_id = gid, channels = ?chs\<rparr>"
    using assms(1,2) by (simp add: game_step_def items_def)
  have all: "list_all2 (\<lambda>g g'. game_step g = Inr g') (before @ live_game # after) games"
    using assms(6) by (simp only: get_game_channels_JArr)
  have "game_step ((before @ live_game # after) ! length before) = Inr (games ! length before)"
    by (rule list_all2_nthD [OF all]) simp
  then show ?thesis using step by simp
qed

theorem moneyline_channels_order_witness:
  "get_game_channels (JArr [JObj [(''game_id'', JStr ''g7''),
       (''markets'', JObj
          [(''m0'', JObj [(''market_type'', JStr ''TOTAL''), (''outcomes'', JObj [(''o9'', JObj [])])]),
           (''m1'', JObj [(''market_type'', JStr ''MONEYLINE''),
                          (''outcomes'', JObj [(''o1'', JObj []), (''o2'', JObj [])])])])]])
     = Inr [\<lparr>game_id = JStr ''g7'',
            channels = [''best_ml.o1'', ''moneyline.o1'', ''best_ml.o2'', ''moneyline.o2'']\<rparr>]"
proof -
  let ?other = "JObj [(''market_type'', JStr ''TOTAL''), (''outcomes'', JObj [(''o9'', JObj [])])]"
  let ?market = "JObj [(''market_type'', JStr ''MONEYLINE''),
           (''outcomes'', JObj [(''o1'', JObj []), (''o2'', JObj [])])]"
  let ?g = "JObj [(''game_id'', JStr ''g7''),
                  (''markets'', JObj ([(''m0'', ?other)] @ (''m1'', ?market) # []))]"
  obtain games where run: "get_game_channels (JArr ([] @ ?g # [])) = Inr games"
    and len: "length games = 1"
    by (simp add: get_game_channels_def py_iter_def game_step_def subscript_def items_def
        market_step_def in_keys_def getitem_def hashable_def CHANNEL_TITLES_def)
  have others: "\<forall>m\<in>snd ` set ([(''m0'', ?other)] @ []). \<exists>mt. subscript m ''market_type'' = Inr mt \<and>
            in_keys mt CHANNEL_TITLES = Inr False"
    by (simp add: subscript_def in_keys_def hashable_def CHANNEL_TITLES_def)
  have "games ! length ([] :: json list) = \<lparr>game_id = JStr ''g7'',
      channels = [''best_ml.'' @ ''o1'', ''moneyline.'' @ ''o1'', ''best_ml.'' @ ''o2'', ''moneyline.'' @ ''o2'']\<rparr>"
    by (rule moneyline_channels_order [where live_game = ?g and market = ?market and market_id = "''m1''"
          and ?ms1.0 = "[(''m0'', ?other)]" and ?ms2.0 = "[]"
          and ?x1.0 = "JObj []" and ?x2.0 = "JObj []" and after = "[]", OF _ _ others _ _ run])
       (simp_all add: subscript_def)
  with len have "games = [\<lparr>game_id = JStr ''g7'',
      channels = [''best_ml.o1'', ''moneyline.o1'', ''best_ml.o2'', ''moneyline.o2'']\<rparr>]"
    by (cases games) simp_all
  with run show ?thesis by simp
qed

text \<open>
  C5. A market whose \<^verbatim>\<open>market_type\<close> is hashable and is neither \<^verbatim>\<open>"MONEYLINE"\<close> nor
  \<^verbatim>\<open>"SPREAD"\<close> leaves the channel list as it is, whatever the market holds under
  \<^verbatim>\<open>outcomes\<close> (even nothing): the loop over the markets of a game, and so the step for the
  game, give the same result with the market as without it.
\<close>

theorem unrecognized_market_no_channels:
  assumes "subscript market ''market_type'' = Inr mt"
    and "hashable mt"
    and "mt \<noteq> JStr ''MONEYLINE''"
    and "mt \<noteq> JStr ''SPREAD''"
  shows "market_step market chs = Inr chs \<and>
         markets_loop (ms1 @ (market_id, market) # ms2) chs = markets_loop (ms1 @ ms2) chs \<and>
         (subscript live_game ''markets'' = Inr (JObj (ms1 @ (market_id, market) # ms2)) \<and>
          subscript live_game' ''markets'' = Inr (JObj (ms1 @ ms2)) \<and>
          subscript live_game' ''game_id'' = subscript live_game ''game_id'' \<longrightarrow>
            game_step live_game = game_step live_game')"
proof -
  have "in_keys mt CHANNEL_TITLES = Inr False"
    using assms(2-4) by (simp add: in_keys_titles)
  then have step: "\<And>chs'. market_step market chs' = Inr chs'"
    using assms(1) by (rule market_step_unrecognized [rotated])
  have skip: "\<And>chs'. markets_loop (ms1 @ (market_id, market) # ms2) chs' = markets_loop (ms1 @ ms2) chs'"
  proof -
    fix chs'
    show "markets_loop (ms1 @ (market_id, market) # ms2) chs' = markets_loop (ms1 @ ms2) chs'"
      by (cases "markets_loop ms1 chs'") (simp_all add: markets_loop_append step)
  qed
  have "game_step live_game = game_step live_game'"
    if "subscript live_game ''markets'' = Inr (JObj (ms1 @ (market_id, market) # ms2))"
      and "subscript live_game' ''markets'' = Inr (JObj (ms1 @ ms2))"
      and "subscript live_game' ''game_id'' = subscript live_game ''game_id''"
    using that
    by (cases "subscript live_game ''game_id''") (simp_all add: game_step_def items_def skip)
  with step skip show ?thesis by blast
qed

theorem unrecognized_market_no_channels_witness:
  "markets_loop
     [(''m1'', JObj [(''market_type'', JStr ''TOTAL''), (''outcomes'', JObj [(''o9'', JObj [])])]),
      (''m2'', JObj [(''market_type'', JStr ''SPREAD''), (''outcomes'', JObj [(''o1'', JObj [])])])] []
   = Inr [''best_ms.o1'', ''spread.o1''] \<and>
   game_step (JObj [(''game_id'', JStr ''g1''),
      (''markets'', JObj
         [(''m1'', JObj [(''market_type'', JStr ''TOTAL''), (''outcomes'', JNull)]),
          (''m2'', JObj [(''market_type'', JStr ''SPREAD''), (''outcomes'', JObj [(''o1'', JObj [])])])])])
   = Inr \<lparr>game_id = JStr ''g1'', channels = [''best_ms.o1'', ''spread.o1'']\<rparr>"
proof -
  let ?m = "JObj [(''market_type'', JStr ''TOTAL''), (''outcomes'', JObj [(''o9'', JObj [])])]"
  let ?n = "JObj [(''market_type'', JStr ''TOTAL''), (''outcomes'', JNull)]"
  let ?ms2 = "[(''m2'', JObj [(''market_type'', JStr ''SPREAD''), (''outcomes'', JObj [(''o1'', JObj [])])])]"
  let ?g = "JObj [(''game_id'', JStr ''g1''), (''markets'', JObj ([] @ (''m1'', ?n) # ?ms2))]"
  let ?g' = "JObj [(''game_id'', JStr ''g1''), (''markets'', JObj ([] @ ?ms2))]"
  have "markets_loop ([] @ (''m1'', ?m) # ?ms2) [] = markets_loop ([] @ ?ms2) []"
    using unrecognized_market_no_channels [where market = ?m and mt = "JStr ''TOTAL''"
        and ?ms1.0 = "[]" and chs = "[]" and market_id = "''m1''" and ?ms2.0 = ?ms2]
    by (simp add: subscript_def hashable_def)
  also have "\<dots> = Inr [''best_ms.o1'', ''spread.o1'']"
    by (simp add: market_step_def subscript_def in_keys_def getitem_def hashable_def items_def
        CHANNEL_TITLES_def)
  finally have loop: "markets_loop ([] @ (''m1'', ?m) # ?ms2) [] = Inr [''best_ms.o1'', ''spread.o1'']" .
  have hyps: "subscript ?n ''market_type'' = Inr (JStr ''TOTAL'')" "hashable (JStr ''TOTAL'')"
    "JStr ''TOTAL'' \<noteq> JStr ''MONEYLINE''" "JStr ''TOTAL'' \<noteq> JStr ''SPREAD''"
    by (simp_all add: subscript_def hashable_def)
  have same: "subscript ?g ''markets'' = Inr (JObj ([] @ (''m1'', ?n) # ?ms2)) \<and>
      subscript ?g' ''markets'' = Inr (JObj ([] @ ?ms2)) \<and>
      subscript ?g' ''game_id'' = subscript ?g ''game_id''"
    by (simp add: subscript_def)
  have "game_step ?g = game_step ?g'"
    by (rule unrecognized_market_no_channels [OF hyps, THEN conjunct2, THEN conjunct2, rule_format,
          OF same])
  also have "\<dots> = Inr \<lparr>game_id = JStr ''g1'', channels = [''best_ms.o1'', ''spread.o1'']\<rparr>"
    by (simp add: game_step_def market_step_def subscript_def in_keys_def getitem_def hashable_def
        items_def CHANNEL_TITLES_def)
  finally have "game_step ?g =
      Inr \<lparr>game_id = JStr ''g1'', channels = [''best_ms.o1'', ''spread.o1'']\<rparr>" .
  with loop show ?thesis by simp
qed

text \<open>
  C3. When \<^verbatim>\<open>get_game_channels\<close> returns, it returns one entry per game of the catalog,
  with that game's \<^verbatim>\<open>game_id\<close>, and the loop of \<^verbatim>\<open>live_odds_stream\<close> appends one task per
  name, each with the message \<^verbatim>\<open>{"channel": name, "action": "subscribe"}\<close>, where the names
  are, game by game in catalog order, \<open>game_state.{game_id}\<close> followed by the game's
  channels. Among the names of a game exactly the first starts with \<open>game_state.\<close>, so the
  list has exactly one \<open>game_state\<close> task per game.
  \<^verbatim>\<open>get_game_channels\<close> does return on every catalog of games that have a \<^verbatim>\<open>game_id\<close> and a
  \<^verbatim>\<open>markets\<close> dictionary whose markets have a hashable \<^verbatim>\<open>market_type\<close> and, when the type is
  recognized, an \<^verbatim>\<open>outcomes\<close> dictionary.
  For a catalog in which no market type is a key of \<^verbatim>\<open>CHANNEL_TITLES\<close>, the loop appends
  exactly one \<open>game_state\<close> task per game and nothing else.
\<close>

theorem game_state_task_per_game:
  "(get_game_channels (JArr live_games) = Inr games \<longrightarrow>
      length games = length live_games \<and>
      (\<forall>i<length live_games. subscript (live_games ! i) ''game_id'' = Inr (game_id (games ! i))) \<and>
      game_tasks_loop str_of games tasks =
        tasks @ map (\<lambda>c. \<lparr>uri = ws_uri,
                           subscription_payload =
                             JObj [(''channel'', JStr c), (''action'', JStr ''subscribe'')]\<rparr>)
                  (concat (map (\<lambda>g. (''game_state.'' @ format_value str_of (game_id g)) # channels g)
                     games)) \<and>
      (\<forall>g\<in>set games.
         filter (prefix ''game_state.'')
           ((''game_state.'' @ format_value str_of (game_id g)) # channels g) =
         [''game_state.'' @ format_value str_of (game_id g)]) \<and>
      length (filter (prefix ''game_state.'')
        (concat (map (\<lambda>g. (''game_state.'' @ format_value str_of (game_id g)) # channels g)
           games))) = length live_games) \<and>
   ((\<forall>g\<in>set live_games. \<exists>gid ms.
        subscript g ''game_id'' = Inr gid \<and> subscript g ''markets'' = Inr (JObj ms) \<and>
        (\<forall>m\<in>snd ` set ms. \<exists>mt. subscript m ''market_type'' = Inr mt \<and>
            (in_keys mt CHANNEL_TITLES = Inr False \<or>
             (in_keys mt CHANNEL_TITLES = Inr True \<and>
              (\<exists>outs. subscript m ''outcomes'' = Inr (JObj outs)))))) \<longrightarrow>
      (\<exists>games'. get_game_channels (JArr live_games) = Inr games')) \<and>
   ((\<forall>g\<in>set live_games. \<exists>gid ms.
        subscript g ''game_id'' = Inr gid \<and> subscript g ''markets'' = Inr (JObj ms) \<and>
        (\<forall>m\<in>snd ` set ms. \<exists>mt. subscript m ''market_type'' = Inr mt \<and>
            in_keys mt CHANNEL_TITLES = Inr False)) \<longrightarrow>
      (\<exists>games'. get_game_channels (JArr live_games) = Inr games' \<and>
         length games' = length live_games \<and>
         game_tasks_loop str_of games' tasks =
           tasks @ map (\<lambda>g. \<lparr>uri = ws_uri,
                              subscription_payload =
                                JObj [(''channel'',
                                       JStr (''game_state.'' @ format_value str_of (game_id g))),
                                      (''action'', JStr ''subscribe'')]\<rparr>) games' \<and>
         length (game_tasks_loop str_of games' tasks) = length tasks + length live_games))"
proof (intro conjI impI)
  assume run: "get_game_channels (JArr live_games) = Inr games"
  then have all: "list_all2 (\<lambda>g g'. game_step g = Inr g') live_games games"
    by (simp only: get_game_channels_JArr)
  then show len: "length games = length live_games"
    by (simp add: list_all2_lengthD)
  show "\<forall>i<length live_games. subscript (live_games ! i) ''game_id'' = Inr (game_id (games ! i))"
    using list_all2_nthD [OF all] by (simp add: game_step_game_id)
  have clean: "\<forall>g\<in>set games. \<forall>c\<in>set (channels g). \<not> prefix ''game_state.'' c"
  proof
    fix g assume "g \<in> set games"
    then obtain i where "i < length games" "g = games ! i" by (auto simp: in_set_conv_nth)
    with list_all2_nthD2 [OF all] have "game_step (live_games ! i) = Inr g" by simp
    then show "\<forall>c\<in>set (channels g). \<not> prefix ''game_state.'' c"
      by (rule game_step_no_game_state)
  qed
  show "game_tasks_loop str_of games tasks =
        tasks @ map (\<lambda>c. \<lparr>uri = ws_uri,
                           subscription_payload =
                             JObj [(''channel'', JStr c), (''action'', JStr ''subscribe'')]\<rparr>)
                  (concat (map (\<lambda>g. (''game_state.'' @ format_value str_of (game_id g)) # channels g)
                     games))"
    by (rule game_tasks_loop_payloads)
  show "\<forall>g\<in>set games.
         filter (prefix ''game_state.'')
           ((''game_state.'' @ format_value str_of (game_id g)) # channels g) =
         [''game_state.'' @ format_value str_of (game_id g)]"
  proof
    fix g assume "g \<in> set games"
    with clean have "\<forall>c\<in>set (channels g). \<not> prefix ''game_state.'' c" by simp
    then show "filter (prefix ''game_state.'')
           ((''game_state.'' @ format_value str_of (game_id g)) # channels g) =
         [''game_state.'' @ format_value str_of (game_id g)]"
      by (rule one_game_state_name)
  qed
  show "length (filter (prefix ''game_state.'')
        (concat (map (\<lambda>g. (''game_state.'' @ format_value str_of (game_id g)) # channels g)
           games))) = length live_games"
    using count_game_state_names [OF clean] len by simp
next
  assume "\<forall>g\<in>set live_games. \<exists>gid ms.
        subscript g ''game_id'' = Inr gid \<and> subscript g ''markets'' = Inr (JObj ms) \<and>
        (\<forall>m\<in>snd ` set ms. \<exists>mt. subscript m ''market_type'' = Inr mt \<and>
            (in_keys mt CHANNEL_TITLES = Inr False \<or>
             (in_keys mt CHANNEL_TITLES = Inr True \<and>
              (\<exists>outs. subscript m ''outcomes'' = Inr (JObj outs)))))"
  from games_loop_returns [OF this]
  show "\<exists>games'. get_game_channels (JArr live_games) = Inr games'"
    by (simp add: get_game_channels_def py_iter_def)
next
  assume "\<forall>g\<in>set live_games. \<exists>gid ms.
        subscript g ''game_id'' = Inr gid \<and> subscript g ''markets'' = Inr (JObj ms) \<and>
        (\<forall>m\<in>snd ` set ms. \<exists>mt. subscript m ''market_type'' = Inr mt \<and>
            in_keys mt CHANNEL_TITLES = Inr False)"
  from games_loop_all_unrecognized [OF this] obtain games' where
    run: "games_loop live_games [] = Inr games'" and empty: "\<forall>g\<in>set games'. channels g = []"
    by auto
  from run have len: "length games' = length live_games"
    by (simp add: games_loop_Inr list_all2_lengthD)
  have tasks: "game_tasks_loop str_of games' tasks =
           tasks @ map (\<lambda>g. \<lparr>uri = ws_uri,
                              subscription_payload =
                                JObj [(''channel'',
                                       JStr (''game_state.'' @ format_value str_of (game_id g))),
                                      (''action'', JStr ''subscribe'')]\<rparr>) games'"
    using empty
    by (induction games' arbitrary: tasks)
       (simp_all add: game_state_task_def subscribe_task_def subscribe_message_def)
  from run len tasks
  show "\<exists>games'. get_game_channels (JArr live_games) = Inr games' \<and>
         length games' = length live_games \<and>
         game_tasks_loop str_of games' tasks =
           tasks @ map (\<lambda>g. \<lparr>uri = ws_uri,
                              subscription_payload =
                                JObj [(''channel'',
                                       JStr (''game_state.'' @ format_value str_of (game_id g))),
                                      (''action'', JStr ''subscribe'')]\<rparr>) games' \<and>
         length (game_tasks_loop str_of games' tasks) = length tasks + length live_games"
    by (simp add: get_game_channels_def py_iter_def)
qed


theorem game_state_task_per_game_witness:
  "get_game_channels (JArr
      [JObj [(''game_id'', JStr ''g1''),
             (''markets'', JObj
                [(''m1'', JObj [(''market_type'', JStr ''SPREAD''),
                               (''outcomes'', JObj [(''o1'', JObj [])])]),
                 (''m2'', JObj [(''market_type'', JStr ''MONEYLINE''),
                               (''outcomes'', JObj [(''o2'', JObj [])])])])],
       JObj [(''game_id'', JStr ''g2''), (''markets'', JObj [])]])
     = Inr [\<lparr>game_id = JStr ''g1'',
             channels = [''best_ms.o1'', ''spread.o1'', ''best_ml.o2'', ''moneyline.o2'']\<rparr>,
            \<lparr>game_id = JStr ''g2'', channels = []\<rparr>] \<and>
   map subscription_payload (game_tasks_loop (\<lambda>v. [])
     [\<lparr>game_id = JStr ''g1'',
       channels = [''best_ms.o1'', ''spread.o1'', ''best_ml.o2'', ''moneyline.o2'']\<rparr>,
      \<lparr>game_id = JStr ''g2'', channels = []\<rparr>] [])
     = [JObj [(''channel'', JStr ''game_state.g1''), (''action'', JStr ''subscribe'')],
        JObj [(''channel'', JStr ''best_ms.o1''), (''action'', JStr ''subscribe'')],
        JObj [(''channel'', JStr ''spread.o1''), (''action'', JStr ''subscribe'')],
        JObj [(''channel'', JStr ''best_ml.o2''), (''action'', JStr ''subscribe'')],
        JObj [(''channel'', JStr ''moneyline.o2''), (''action'', JStr ''subscribe'')],
        JObj [(''channel'', JStr ''game_state.g2''), (''action'', JStr ''subscribe'')]] \<and>
   filter (prefix ''game_state.'')
     [''game_state.g1'', ''best_ms.o1'', ''spread.o1'', ''best_ml.o2'', ''moneyline.o2'']
     = [''game_state.g1''] \<and>
   get_game_channels (JArr
      [JObj [(''game_id'', JStr ''g1''),
             (''markets'', JObj [(''m1'', JObj [(''market_type'', JStr ''TOTAL''),
                                               (''outcomes'', JObj [(''o1'', JObj [])])])])],
       JObj [(''game_id'', JStr ''g2''), (''markets'', JObj [])]])
     = Inr [\<lparr>game_id = JStr ''g1'', channels = []\<rparr>, \<lparr>game_id = JStr ''g2'', channels = []\<rparr>] \<and>
   map subscription_payload (game_tasks_loop (\<lambda>v. [])
     [\<lparr>game_id = JStr ''g1'', channels = []\<rparr>, \<lparr>game_id = JStr ''g2'', channels = []\<rparr>] [])
     = [JObj [(''channel'', JStr ''game_state.g1''), (''action'', JStr ''subscribe'')],
        JObj [(''channel'', JStr ''game_state.g2''), (''action'', JStr ''subscribe'')]]"
proof -
  let ?A = "[JObj [(''game_id'', JStr ''g1''),
             (''markets'', JObj
                [(''m1'', JObj [(''market_type'', JStr ''SPREAD''),
                               (''outcomes'', JObj [(''o1'', JObj [])])]),
                 (''m2'', JObj [(''market_type'', JStr ''MONEYLINE''),
                               (''outcomes'', JObj [(''o2'', JObj [])])])])],
       JObj [(''game_id'', JStr ''g2''), (''markets'', JObj [])]]"
  let ?g1 = "\<lparr>game_id = JStr ''g1'',
             channels = [''best_ms.o1'', ''spread.o1'', ''best_ml.o2'', ''moneyline.o2'']\<rparr>"
  let ?g2 = "\<lparr>game_id = JStr ''g2'', channels = []\<rparr>"
  let ?B = "[JObj [(''game_id'', JStr ''g1''),
             (''markets'', JObj [(''m1'', JObj [(''market_type'', JStr ''TOTAL''),
                                               (''outcomes'', JObj [(''o1'', JObj [])])])])],
       JObj [(''game_id'', JStr ''g2''), (''markets'', JObj [])]]"
  note inst = game_state_task_per_game [where str_of = "\<lambda>v. []" and tasks = "[]"]
  have wf: "\<forall>g\<in>set ?A. \<exists>gid ms.
        subscript g ''game_id'' = Inr gid \<and> subscript g ''markets'' = Inr (JObj ms) \<and>
        (\<forall>m\<in>snd ` set ms. \<exists>mt. subscript m ''market_type'' = Inr mt \<and>
            (in_keys mt CHANNEL_TITLES = Inr False \<or>
             (in_keys mt CHANNEL_TITLES = Inr True \<and>
              (\<exists>outs. subscript m ''outcomes'' = Inr (JObj outs)))))"
    by (simp add: subscript_def in_keys_def hashable_def CHANNEL_TITLES_def)
  from inst [of ?A, THEN conjunct2, THEN conjunct1, THEN mp, OF wf]
  obtain games where run: "get_game_channels (JArr ?A) = Inr games" ..
  then have games: "games = [?g1, ?g2]"
    by (simp add: get_game_channels_def py_iter_def game_step_def subscript_def items_def
        market_step_def in_keys_def getitem_def hashable_def CHANNEL_TITLES_def)
  with run have A: "get_game_channels (JArr ?A) = Inr [?g1, ?g2]" by simp
  note general = inst [of ?A "[?g1, ?g2]", THEN conjunct1, THEN mp, OF A]
  note loop = general [THEN conjunct2, THEN conjunct2, THEN conjunct1]
  note one = general [THEN conjunct2, THEN conjunct2, THEN conjunct2, THEN conjunct1]
  from loop have payloads: "map subscription_payload (game_tasks_loop (\<lambda>v. []) [?g1, ?g2] [])
     = [JObj [(''channel'', JStr ''game_state.g1''), (''action'', JStr ''subscribe'')],
        JObj [(''channel'', JStr ''best_ms.o1''), (''action'', JStr ''subscribe'')],
        JObj [(''channel'', JStr ''spread.o1''), (''action'', JStr ''subscribe'')],
        JObj [(''channel'', JStr ''best_ml.o2''), (''action'', JStr ''subscribe'')],
        JObj [(''channel'', JStr ''moneyline.o2''), (''action'', JStr ''subscribe'')],
        JObj [(''channel'', JStr ''game_state.g2''), (''action'', JStr ''subscribe'')]]"
    by (simp add: format_value_def)
  from one have first: "filter (prefix ''game_state.'')
     [''game_state.g1'', ''best_ms.o1'', ''spread.o1'', ''best_ml.o2'', ''moneyline.o2'']
     = [''game_state.g1'']"
    by (simp add: format_value_def)
  have hyp: "\<forall>g\<in>set ?B. \<exists>gid ms.
        subscript g ''game_id'' = Inr gid \<and> subscript g ''markets'' = Inr (JObj ms) \<and>
        (\<forall>m\<in>snd ` set ms. \<exists>mt. subscript m ''market_type'' = Inr mt \<and>
            in_keys mt CHANNEL_TITLES = Inr False)"
    by (simp add: subscript_def in_keys_def hashable_def CHANNEL_TITLES_def)
  from inst [of ?B, THEN conjunct2, THEN conjunct2, THEN mp, OF hyp]
  obtain games' where
    allB: "get_game_channels (JArr ?B) = Inr games' \<and>
         length games' = length ?B \<and>
         game_tasks_loop (\<lambda>v. []) games' [] =
           [] @ map (\<lambda>g. \<lparr>uri = ws_uri,
                              subscription_payload =
                                JObj [(''channel'',
                                       JStr (''game_state.'' @ format_value (\<lambda>v. []) (game_id g))),
                                      (''action'', JStr ''subscribe'')]\<rparr>) games' \<and>
         length (game_tasks_loop (\<lambda>v. []) games' []) = length ([] :: task list) + length ?B" ..
  note runB = allB [THEN conjunct1]
  note tasksB = allB [THEN conjunct2, THEN conjunct2, THEN conjunct1]
  from runB have gB: "games' = [\<lparr>game_id = JStr ''g1'', channels = []\<rparr>, ?g2]"
    by (simp add: get_game_channels_def py_iter_def game_step_def subscript_def items_def
        market_step_def in_keys_def getitem_def hashable_def CHANNEL_TITLES_def)
  from runB have B1: "get_game_channels (JArr ?B) =
      Inr [\<lparr>game_id = JStr ''g1'', channels = []\<rparr>, ?g2]"
    unfolding gB .
  from tasksB have B2: "map subscription_payload (game_tasks_loop (\<lambda>v. [])
      [\<lparr>game_id = JStr ''g1'', channels = []\<rparr>, ?g2] []) =
        [JObj [(''channel'', JStr ''game_state.g1''), (''action'', JStr ''subscribe'')],
         JObj [(''channel'', JStr ''game_state.g2''), (''action'', JStr ''subscribe'')]]"
    unfolding gB by (simp add: format_value_def)
  show ?thesis
    using A payloads first B1 B2 by (intro conjI) assumption+
qed

section \<open>The task list of \<^verbatim>\<open>live_odds_stream\<close>\<close>

text \<open>
  C4, as the code has it. The task list is the global filter task followed, for each game
  in catalog order, by the game's \<open>game_state\<close> task and then the tasks of that game's market
  channels; so the tasks of one game stand together, and the list holds the same tasks
  as the filter task, then all \<open>game_state\<close> tasks, then all market channel tasks.
\<close>

theorem task_list_per_game_order:
  assumes "get_live_games http None None = Inr live_games"
    and "get_game_channels live_games = Inr games"
  shows "live_odds_stream http str_of =
           (filter_task #
              concat (map (\<lambda>g. game_state_task str_of (game_id g) # map subscribe_task (channels g))
                        games), None) \<and>
         mset (fst (live_odds_stream http str_of)) =
           mset ([filter_task] @ map (\<lambda>g. game_state_task str_of (game_id g)) games @
                 concat (map (\<lambda>g. map subscribe_task (channels g)) games))"
proof -
  have run: "live_odds_stream http str_of =
           (filter_task #
              concat (map (\<lambda>g. game_state_task str_of (game_id g) # map subscribe_task (channels g))
                        games), None)"
    using assms by (simp add: live_odds_stream_def build_tasks_def game_tasks_loop_eq)
  then show ?thesis by (simp add: mset_game_segments)
qed

theorem task_list_per_game_order_witness:
  "live_odds_stream
      (\<lambda>u ps. Inr (JObj [(''body'', JObj [(''live_games'', JArr
          [JObj [(''game_id'', JStr ''g1''),
                 (''markets'', JObj [(''m1'', JObj [(''market_type'', JStr ''MONEYLINE''),
                                                   (''outcomes'', JObj [(''o1'', JObj [])])])])],
           JObj [(''game_id'', JStr ''g2''), (''markets'', JObj [])]])])]))
      (\<lambda>v. [])
   = ([filter_task, subscribe_task ''game_state.g1'', subscribe_task ''best_ml.o1'',
      subscribe_task ''moneyline.o1'', subscribe_task ''game_state.g2''], None)"
proof -
  let ?cat = "JArr
          [JObj [(''game_id'', JStr ''g1''),
                 (''markets'', JObj [(''m1'', JObj [(''market_type'', JStr ''MONEYLINE''),
                                                   (''outcomes'', JObj [(''o1'', JObj [])])])])],
           JObj [(''game_id'', JStr ''g2''), (''markets'', JObj [])]]"
  let ?http = "\<lambda>u ps. Inr (JObj [(''body'', JObj [(''live_games'', ?cat)])])"
  let ?games = "[\<lparr>game_id = JStr ''g1'', channels = [''best_ml.o1'', ''moneyline.o1'']\<rparr>,
            \<lparr>game_id = JStr ''g2'', channels = []\<rparr>]"
  have fetch: "get_live_games ?http None None = Inr ?cat"
    by (simp add: get_live_games_def subscript_def)
  have derive: "get_game_channels ?cat = Inr ?games"
    by (simp add: get_game_channels_def py_iter_def game_step_def subscript_def items_def
        market_step_def in_keys_def getitem_def hashable_def CHANNEL_TITLES_def)
  from task_list_per_game_order [OF fetch derive, of "\<lambda>v. []"]
  show ?thesis by (simp add: game_state_task_def format_value_def)
qed

text \<open>
  C4, as it is stated, asks for all \<open>game_state\<close> tasks before all market channel tasks.
  With two games, the first of which has a recognized market, the second game's
  \<open>game_state\<close> task comes after the first game's market channel tasks.
\<close>

theorem task_list_grouped_counterexample:
  "fst (live_odds_stream
      (\<lambda>u ps. Inr (JObj [(''body'', JObj [(''live_games'', JArr
          [JObj [(''game_id'', JStr ''g1''),
                 (''markets'', JObj [(''m1'', JObj [(''market_type'', JStr ''MONEYLINE''),
                                                   (''outcomes'', JObj [(''o1'', JObj [])])])])],
           JObj [(''game_id'', JStr ''g2''), (''markets'', JObj [])]])])]))
      (\<lambda>v. []))
   = [filter_task, subscribe_task ''game_state.g1'', subscribe_task ''best_ml.o1'',
      subscribe_task ''moneyline.o1'', subscribe_task ''game_state.g2''] \<and>
   [filter_task, subscribe_task ''game_state.g1'', subscribe_task ''best_ml.o1'',
      subscribe_task ''moneyline.o1'', subscribe_task ''game_state.g2'']
   \<noteq> [filter_task] @ [subscribe_task ''game_state.g1'', subscribe_task ''game_state.g2''] @
       [subscribe_task ''best_ml.o1'', subscribe_task ''moneyline.o1'']"
  by (simp add: live_odds_stream_def get_live_games_def query_params_def
        get_game_channels_def py_iter_def game_step_def subscript_def items_def
        market_step_def in_keys_def getitem_def hashable_def CHANNEL_TITLES_def
        build_tasks_def game_state_task_def format_value_def
        subscribe_task_def subscribe_message_def)

text \<open>
  C2. When the catalog fetch returns the single game \<open>g1\<close> with the one market \<open>m1\<close> of type
  \<^verbatim>\<open>SPREAD\<close> and the one outcome \<open>o1\<close>, \<^verbatim>\<open>live_odds_stream\<close> creates exactly four tasks and
  raises nothing; their subscription messages are, in this order, the global filter, the
  subscription to \<open>game_state.g1\<close>, to \<open>best_ms.o1\<close> and to \<open>spread.o1\<close>.
\<close>

theorem single_spread_game_tasks:
  assumes "get_live_games http None None =
     Inr (JArr [JObj [(''game_id'', JStr ''g1''),
                      (''markets'', JObj [(''m1'', JObj [(''market_type'', JStr ''SPREAD''),
                                                        (''outcomes'', JObj [(''o1'', JObj [])])])])]])"
  shows "live_odds_stream http str_of =
           ([filter_task, subscribe_task ''game_state.g1'', subscribe_task ''best_ms.o1'',
             subscribe_task ''spread.o1''], None) \<and>
         map subscription_payload (fst (live_odds_stream http str_of)) =
           [JObj [(''filtered_sportsbooks'', JArr [JStr ''PINNY'']), (''action'', JStr ''filter'')],
            JObj [(''channel'', JStr ''game_state.g1''), (''action'', JStr ''subscribe'')],
            JObj [(''channel'', JStr ''best_ms.o1''), (''action'', JStr ''subscribe'')],
            JObj [(''channel'', JStr ''spread.o1''), (''action'', JStr ''subscribe'')]] \<and>
         length (fst (live_odds_stream http str_of)) = 4"
proof -
  have "live_odds_stream http str_of =
           ([filter_task, subscribe_task ''game_state.g1'', subscribe_task ''best_ms.o1'',
             subscribe_task ''spread.o1''], None)"
    using assms
    by (simp add: live_odds_stream_def get_game_channels_def py_iter_def game_step_def
        subscript_def items_def market_step_def in_keys_def getitem_def hashable_def
        CHANNEL_TITLES_def build_tasks_def game_state_task_def format_value_def)
  then show ?thesis
    by (simp add: filter_task_def subscribe_task_def filter_message_def subscribe_message_def)
qed

theorem single_spread_game_tasks_witness:
  "length (fst (live_odds_stream
      (\<lambda>u ps. Inr (JObj [(''body'', JObj [(''live_games'', JArr
          [JObj [(''game_id'', JStr ''g1''),
                 (''markets'', JObj [(''m1'', JObj [(''market_type'', JStr ''SPREAD''),
                                                   (''outcomes'', JObj [(''o1'', JObj [])])])])]])])]))
      (\<lambda>v. []))) = 4"
proof -
  let ?http = "\<lambda>u ps. Inr (JObj [(''body'', JObj [(''live_games'', JArr
          [JObj [(''game_id'', JStr ''g1''),
                 (''markets'', JObj [(''m1'', JObj [(''market_type'', JStr ''SPREAD''),
                                                   (''outcomes'', JObj [(''o1'', JObj [])])])])]])])])"
  have "get_live_games ?http None None =
     Inr (JArr [JObj [(''game_id'', JStr ''g1''),
                      (''markets'', JObj [(''m1'', JObj [(''market_type'', JStr ''SPREAD''),
                                                        (''outcomes'', JObj [(''o1'', JObj [])])])])]])"
    by (simp add: get_live_games_def subscript_def)
  from single_spread_game_tasks [OF this, of "\<lambda>v. []"] show ?thesis by (rule conjunct2 [THEN conjunct2])
qed

text \<open>
  C10. When the fetched catalog is the empty list, \<^verbatim>\<open>live_odds_stream\<close> creates exactly one
  task, the global filter task with the message
  \<^verbatim>\<open>{"filtered_sportsbooks": ["PINNY"], "action": "filter"}\<close>, and raises nothing.
\<close>

theorem empty_catalog_filter_task_only:
  assumes "get_live_games http None None = Inr (JArr [])"
  shows "live_odds_stream http str_of =
           ([\<lparr>uri = ws_uri,
              subscription_payload =
                JObj [(''filtered_sportsbooks'', JArr [JStr ''PINNY'']), (''action'', JStr ''filter'')]\<rparr>],
            None)"
  using assms
  by (simp add: live_odds_stream_def get_game_channels_def py_iter_def build_tasks_def
      filter_task_def filter_message_def)

theorem empty_catalog_filter_task_only_witness:
  "live_odds_stream (\<lambda>u ps. Inr (JObj [(''body'', JObj [(''live_games'', JArr [])])])) (\<lambda>v. [])
     = ([\<lparr>uri = ''wss://ws.openodds.gg/ws'',
          subscription_payload =
            JObj [(''filtered_sportsbooks'', JArr [JStr ''PINNY'']), (''action'', JStr ''filter'')]\<rparr>],
        None)"
proof -
  have "get_live_games (\<lambda>u ps. Inr (JObj [(''body'', JObj [(''live_games'', JArr [])])])) None None
      = Inr (JArr [])"
    by (simp add: get_live_games_def subscript_def)
  from empty_catalog_filter_task_only [OF this, of "\<lambda>v. []"] show ?thesis
    by (simp add: ws_uri_def)
qed

section \<open>The catalog fetch\<close>

lemma map_of_setitem:
  "map_of (setitem d k v) k' = (if k' = k then Some v else map_of d k')"
  by (induction d) auto

text \<open>
  C8. When the parsed response has no \<^verbatim>\<open>body.live_games\<close> path, or when the request itself
  fails, \<^verbatim>\<open>get_live_games\<close> raises; and when \<^verbatim>\<open>get_live_games\<close> raises in
  \<^verbatim>\<open>live_odds_stream\<close>, the same exception leaves \<^verbatim>\<open>live_odds_stream\<close> and no task has been
  created.
\<close>

theorem catalog_fetch_failure_aborts:
  "(http live_games_uri (query_params sport live) = Inr response \<and>
    \<not> (\<exists>body games. subscript response ''body'' = Inr body \<and>
                     subscript body ''live_games'' = Inr games) \<longrightarrow>
      (\<exists>e. get_live_games http sport live = Inl e)) \<and>
   (http live_games_uri (query_params sport live) = Inl e \<longrightarrow>
      get_live_games http sport live = Inl e) \<and>
   (get_live_games http None None = Inl e \<longrightarrow> live_odds_stream http str_of = ([], Some e))"
proof (intro conjI impI)
  assume a: "http live_games_uri (query_params sport live) = Inr response \<and>
    \<not> (\<exists>body games. subscript response ''body'' = Inr body \<and>
                     subscript body ''live_games'' = Inr games)"
  show "\<exists>e. get_live_games http sport live = Inl e"
  proof (cases "subscript response ''body''")
    case (Inl e)
    with a show ?thesis by (simp add: get_live_games_def)
  next
    case (Inr body)
    with a obtain e where "subscript body ''live_games'' = Inl e"
      by (cases "subscript body ''live_games''") auto
    with a Inr show ?thesis by (simp add: get_live_games_def)
  qed
next
  assume "http live_games_uri (query_params sport live) = Inl e"
  then show "get_live_games http sport live = Inl e" by (simp add: get_live_games_def)
next
  assume "get_live_games http None None = Inl e"
  then show "live_odds_stream http str_of = ([], Some e)" by (simp add: live_odds_stream_def)
qed

theorem catalog_fetch_failure_aborts_witness:
  "live_odds_stream (\<lambda>u ps. Inr (JObj [(''statusCode'', JInt 500)])) (\<lambda>v. []) = ([], Some KeyError) \<and>
   live_odds_stream (\<lambda>u ps. Inl RequestException) (\<lambda>v. []) = ([], Some RequestException)"
proof -
  let ?http = "\<lambda>u ps. Inr (JObj [(''statusCode'', JInt 500)]) :: exn + json"
  let ?down = "\<lambda>u ps. Inl RequestException :: exn + json"
  note inst = catalog_fetch_failure_aborts [where sport = None and live = None and str_of = "\<lambda>v. []"]
  have absent: "\<not> (\<exists>body games. subscript (JObj [(''statusCode'', JInt 500)]) ''body'' = Inr body \<and>
                     subscript body ''live_games'' = Inr games)"
    by (simp add: subscript_def)
  from inst [where http = ?http and response = "JObj [(''statusCode'', JInt 500)]" and e = KeyError]
    absent
  have "\<exists>e. get_live_games ?http None None = Inl e" by simp
  then obtain e where e: "get_live_games ?http None None = Inl e" ..
  then have "e = KeyError" by (simp add: get_live_games_def subscript_def)
  with e inst [where http = ?http and e = KeyError]
  have 1: "live_odds_stream ?http (\<lambda>v. []) = ([], Some KeyError)" by blast
  from inst [where http = ?down and e = RequestException]
  have 2: "live_odds_stream ?down (\<lambda>v. []) = ([], Some RequestException)" by blast
  from 1 2 show ?thesis by simp
qed

text \<open>
  C9. The query of \<^verbatim>\<open>get_live_games\<close> has the parameter \<open>sport\<close> exactly when the argument
  \<open>sport\<close> is given and not empty, with the argument as its value, and likewise \<open>live\<close>;
  it has no other parameter. The call returns a value exactly when the response to this
  query is parsed and has the path \<^verbatim>\<open>body.live_games\<close>, and the value is what stands there.
\<close>

theorem query_params_and_result:
  "map_of (query_params sport live) ''sport'' =
     (case sport of None \<Rightarrow> None | Some s \<Rightarrow> if s \<noteq> [] then Some s else None) \<and>
   map_of (query_params sport live) ''live'' =
     (case live of None \<Rightarrow> None | Some l \<Rightarrow> if l \<noteq> [] then Some l else None) \<and>
   fst ` set (query_params sport live) \<subseteq> {''sport'', ''live''} \<and>
   (get_live_games http sport live = Inr games \<longleftrightarrow>
      (\<exists>response body. http live_games_uri (query_params sport live) = Inr response \<and>
          subscript response ''body'' = Inr body \<and> subscript body ''live_games'' = Inr games))"
proof (intro conjI)
  show "map_of (query_params sport live) ''sport'' =
     (case sport of None \<Rightarrow> None | Some s \<Rightarrow> if s \<noteq> [] then Some s else None)"
    by (simp add: query_params_def Let_def map_of_setitem split: option.splits)
  show "map_of (query_params sport live) ''live'' =
     (case live of None \<Rightarrow> None | Some l \<Rightarrow> if l \<noteq> [] then Some l else None)"
    by (simp add: query_params_def Let_def map_of_setitem split: option.splits)
  show "fst ` set (query_params sport live) \<subseteq> {''sport'', ''live''}"
    by (auto simp: query_params_def Let_def split: option.splits if_splits)
  show "get_live_games http sport live = Inr games \<longleftrightarrow>
      (\<exists>response body. http live_games_uri (query_params sport live) = Inr response \<and>
          subscript response ''body'' = Inr body \<and> subscript body ''live_games'' = Inr games)"
    by (auto simp: get_live_games_def split: sum.splits)
qed

theorem query_params_and_result_witness:
  "query_params (Some ''basketball'') (Some []) = [(''sport'', ''basketball'')] \<and>
   query_params None (Some ''true'') = [(''live'', ''true'')] \<and>
   get_live_games
     (\<lambda>u ps. if ps = [(''sport'', ''basketball'')]
              then Inr (JObj [(''body'', JObj [(''live_games'', JArr [JObj [(''game_id'', JStr ''g1'')]])])])
              else Inl RequestException)
     (Some ''basketball'') None = Inr (JArr [JObj [(''game_id'', JStr ''g1'')]])"
proof -
  let ?http = "\<lambda>u ps. if ps = [(''sport'', ''basketball'')]
              then Inr (JObj [(''body'', JObj [(''live_games'', JArr [JObj [(''game_id'', JStr ''g1'')]])])])
              else Inl RequestException"
  have q: "query_params (Some ''basketball'') None = [(''sport'', ''basketball'')]"
    by (simp add: query_params_def)
  have "\<exists>response body. ?http live_games_uri (query_params (Some ''basketball'') None) = Inr response \<and>
          subscript response ''body'' = Inr body \<and>
          subscript body ''live_games'' = Inr (JArr [JObj [(''game_id'', JStr ''g1'')]])"
    by (simp add: q subscript_def)
  with query_params_and_result [of "Some ''basketball''" None ?http "JArr [JObj [(''game_id'', JStr ''g1'')]]"]
  have "get_live_games ?http (Some ''basketball'') None = Inr (JArr [JObj [(''game_id'', JStr ''g1'')]])"
    by blast
  then show ?thesis by (simp add: query_params_def)
qed

section \<open>The subscription runner: properties\<close>

lemma handle_message_error:
  "handle_message json_loads message = Inl e \<Longrightarrow> e \<in> {JSONDecodeError, KeyError, TypeError}"
  by (auto simp: handle_message_def subscript_def split: option.splits sum.splits json.splits)

lemma recv_loop_continue:
  assumes "rcv i \<noteq> Raises WebSocketException"
  shows "\<exists>out. recv_loop (Suc fuel) json_loads rcv i tr =
           recv_loop fuel json_loads rcv (Suc i) (tr @ out)"
proof (cases "rcv i")
  case (Raises e)
  with assms have "e \<noteq> WebSocketException" by simp
  with Raises have "recv_loop (Suc fuel) json_loads rcv i tr =
      recv_loop fuel json_loads rcv (Suc i) (tr @ [PrintError e, PrintExc e])" by simp
  then show ?thesis ..
next
  case (Message message)
  show ?thesis
  proof (cases "handle_message json_loads message")
    case (Inl e)
    from handle_message_error [OF this] have "e \<noteq> WebSocketException" by auto
    with Message Inl have "recv_loop (Suc fuel) json_loads rcv i tr =
      recv_loop fuel json_loads rcv (Suc i) (tr @ [PrintError e, PrintExc e])" by simp
    then show ?thesis ..
  next
    case (Inr out)
    with Message have "recv_loop (Suc fuel) json_loads rcv i tr =
      recv_loop fuel json_loads rcv (Suc i) (tr @ out)" by simp
    then show ?thesis ..
  qed
qed

lemma recv_loop_extends:
  "\<exists>rest. actions_of (recv_loop fuel json_loads rcv i tr) = tr @ rest"
proof (induction fuel arbitrary: i tr)
  case 0
  show ?case by simp
next
  case (Suc fuel)
  show ?case
  proof (cases "rcv i = Raises WebSocketException")
    case True
    then show ?thesis by simp
  next
    case False
    from recv_loop_continue [where rcv = rcv and i = i, OF False] obtain out where
      "recv_loop (Suc fuel) json_loads rcv i tr = recv_loop fuel json_loads rcv (Suc i) (tr @ out)"
      by blast
    moreover from Suc.IH [of "Suc i" "tr @ out"] obtain rest where
      "actions_of (recv_loop fuel json_loads rcv (Suc i) (tr @ out)) = (tr @ out) @ rest" by blast
    ultimately have "actions_of (recv_loop (Suc fuel) json_loads rcv i tr) = tr @ (out @ rest)"
      by simp
    then show ?thesis ..
  qed
qed

lemma recv_loop_not_raised:
  "recv_loop fuel json_loads rcv i tr \<noteq> Raised e tr'"
proof (induction fuel arbitrary: i tr)
  case 0
  show ?case by simp
next
  case (Suc fuel)
  show ?case
  proof (cases "rcv i = Raises WebSocketException")
    case True
    then show ?thesis by simp
  next
    case False
    from recv_loop_continue [where rcv = rcv and i = i, OF False] obtain out where
      "recv_loop (Suc fuel) json_loads rcv i tr = recv_loop fuel json_loads rcv (Suc i) (tr @ out)"
      by blast
    with Suc.IH show ?thesis by simp
  qed
qed

lemma recv_loop_closes:
  assumes "rcv n = Raises WebSocketException"
    and "\<forall>k<n. rcv k \<noteq> Raises WebSocketException"
  shows "i \<le> n \<Longrightarrow> n - i < fuel \<Longrightarrow>
     \<exists>rest. recv_loop fuel json_loads rcv i tr = Returned (tr @ rest @ [PrintExc WebSocketException])"
proof (induction fuel arbitrary: i tr)
  case 0
  then show ?case by simp
next
  case (Suc fuel)
  show ?case
  proof (cases "i = n")
    case True
    with assms(1) have "recv_loop (Suc fuel) json_loads rcv i tr =
        Returned (tr @ [] @ [PrintExc WebSocketException])" by simp
    then show ?thesis ..
  next
    case False
    with Suc.prems have lt: "i < n" by simp
    with assms(2) have "rcv i \<noteq> Raises WebSocketException" by simp
    from recv_loop_continue [where rcv = rcv and i = i, OF this] obtain out where
      step: "recv_loop (Suc fuel) json_loads rcv i tr =
         recv_loop fuel json_loads rcv (Suc i) (tr @ out)"
      by blast
    from lt Suc.prems have "Suc i \<le> n" "n - Suc i < fuel" by simp_all
    from Suc.IH [OF this, of "tr @ out"] obtain rest where
      "recv_loop fuel json_loads rcv (Suc i) (tr @ out) =
         Returned ((tr @ out) @ rest @ [PrintExc WebSocketException])" by blast
    with step have "recv_loop (Suc fuel) json_loads rcv i tr =
         Returned (tr @ (out @ rest) @ [PrintExc WebSocketException])" by simp
    then show ?thesis ..
  qed
qed

lemma stream_not_raised:
  "stream fuel json_loads conn t \<noteq> Raised e tr"
  by (simp add: stream_def split: outcome.splits)


lemma run_tasks_not_raised:
  "r \<in> set (run_tasks json_loads sched tasks) \<Longrightarrow> r \<noteq> Raised e tr"
  by (auto simp: run_tasks_def stream_not_raised)

lemma await_loop_undisturbed:
  "(\<And>r e tr. r \<in> set outs \<Longrightarrow> r \<noteq> Raised e tr) \<Longrightarrow> await_loop outs = (map Ran outs, None)"
proof (induction outs)
  case Nil
  show ?case by simp
next
  case (Cons r outs)
  have rest: "await_loop outs = (map Ran outs, None)"
    by (rule Cons.IH) (simp add: Cons.prems)
  show ?case
  proof (cases r)
    case (Raised e tr)
    with Cons.prems [of r e tr] show ?thesis by simp
  qed (simp_all add: rest)
qed

lemma await_loop_propagates:
  "await_loop (Returned tr # Raised e tr' # OutOfFuel tr'' # rest) =
     (Ran (Returned tr) # Ran (Raised e tr') # Cancelled tr'' # map cancel rest, Some e)"
  by (simp add: cancel_def)

lemma await_tasks_undisturbed:
  "await_tasks json_loads sched tasks =
     (map (\<lambda>(k, t). Ran (stream (fst (sched k)) json_loads (snd (sched k)) t)) (enumerate 0 tasks),
      None)"
proof -
  have "await_loop (run_tasks json_loads sched tasks) =
      (map Ran (run_tasks json_loads sched tasks), None)"
    by (rule await_loop_undisturbed) (rule run_tasks_not_raised)
  then show ?thesis
    by (simp add: await_tasks_def run_tasks_def split_def)
qed

text \<open>
  C6. A frame whose handling fails (\<^verbatim>\<open>json.loads\<close> rejects it, or the decoded value has no
  \<^verbatim>\<open>channel\<close> or no \<^verbatim>\<open>payload\<close>) is reported by the two prints of the second handler and the
  loop goes on with the next call of \<^verbatim>\<open>recv\<close>; when the next frame is valid, its channel and
  payload are printed after the report, and they stay in everything the loop does later.
  A text that is not JSON fails with \<^verbatim>\<open>JSONDecodeError\<close>, a dictionary without
  \<^verbatim>\<open>channel\<close> with \<^verbatim>\<open>KeyError\<close>.
\<close>

theorem bad_frame_does_not_stop_loop:
  assumes "rcv i = Message bad"
    and "handle_message json_loads bad = Inl e"
    and "rcv (Suc i) = Message good"
    and "json_loads good = Some message_json"
    and "subscript message_json ''channel'' = Inr channel"
    and "subscript message_json ''payload'' = Inr payload"
  shows "recv_loop (Suc fuel) json_loads rcv i tr =
           recv_loop fuel json_loads rcv (Suc i) (tr @ [PrintError e, PrintExc e]) \<and>
         recv_loop (Suc (Suc fuel)) json_loads rcv i tr =
           recv_loop fuel json_loads rcv (Suc (Suc i))
             (tr @ [PrintError e, PrintExc e, PrintValue channel, PrintValue payload, PrintBlank]) \<and>
         (\<exists>rest. actions_of (recv_loop (Suc (Suc fuel)) json_loads rcv i tr) =
             tr @ [PrintError e, PrintExc e, PrintValue channel, PrintValue payload, PrintBlank] @ rest) \<and>
         (json_loads m = None \<longrightarrow> handle_message json_loads m = Inl JSONDecodeError) \<and>
         (json_loads m = Some (JObj d) \<and> map_of d ''channel'' = None \<longrightarrow>
            handle_message json_loads m = Inl KeyError)"
proof -
  from handle_message_error [OF assms(2)] have ne: "e \<noteq> WebSocketException" by auto
  have one: "\<And>f. recv_loop (Suc f) json_loads rcv i tr =
           recv_loop f json_loads rcv (Suc i) (tr @ [PrintError e, PrintExc e])"
    using assms(1,2) ne by simp
  have good: "handle_message json_loads good =
      Inr [PrintValue channel, PrintValue payload, PrintBlank]"
    using assms(4-6) by (simp add: handle_message_def)
  have two: "recv_loop (Suc (Suc fuel)) json_loads rcv i tr =
           recv_loop fuel json_loads rcv (Suc (Suc i))
             (tr @ [PrintError e, PrintExc e, PrintValue channel, PrintValue payload, PrintBlank])"
    unfolding one using assms(3) good by simp
  from recv_loop_extends [of fuel json_loads rcv "Suc (Suc i)"
      "tr @ [PrintError e, PrintExc e, PrintValue channel, PrintValue payload, PrintBlank]"]
  have three: "\<exists>rest. actions_of (recv_loop (Suc (Suc fuel)) json_loads rcv i tr) =
             tr @ [PrintError e, PrintExc e, PrintValue channel, PrintValue payload, PrintBlank] @ rest"
    unfolding two by simp
  have four: "json_loads m = None \<longrightarrow> handle_message json_loads m = Inl JSONDecodeError"
    by (simp add: handle_message_def)
  have five: "json_loads m = Some (JObj d) \<and> map_of d ''channel'' = None \<longrightarrow>
            handle_message json_loads m = Inl KeyError"
    by (simp add: handle_message_def subscript_def)
  from one [of fuel] two three four five show ?thesis by blast
qed

theorem bad_frame_does_not_stop_loop_witness:
  "recv_loop 3
     (\<lambda>s. if s = ''x'' then Some (JObj [(''payload'', JInt 1)])
           else if s = ''y'' then Some (JObj [(''channel'', JStr ''spread.o1''), (''payload'', JInt 2)])
           else None)
     (\<lambda>i. if i = 0 then Message ''x'' else if i = 1 then Message ''y'' else Raises WebSocketException)
     0 []
   = Returned [PrintError KeyError, PrintExc KeyError,
               PrintValue (JStr ''spread.o1''), PrintValue (JInt 2), PrintBlank,
               PrintExc WebSocketException] \<and>
   recv_loop 3
     (\<lambda>s. if s = ''y'' then Some (JObj [(''channel'', JStr ''spread.o1''), (''payload'', JInt 2)])
           else None)
     (\<lambda>i. if i = 0 then Message ''{'' else if i = 1 then Message ''y'' else Raises WebSocketException)
     0 []
   = Returned [PrintError JSONDecodeError, PrintExc JSONDecodeError,
               PrintValue (JStr ''spread.o1''), PrintValue (JInt 2), PrintBlank,
               PrintExc WebSocketException]"
proof -
  let ?good = "JObj [(''channel'', JStr ''spread.o1''), (''payload'', JInt 2)]"
  let ?loads = "\<lambda>s. if s = ''x'' then Some (JObj [(''payload'', JInt 1)])
           else if s = ''y'' then Some ?good else None"
  let ?rcv = "\<lambda>i::nat. if i = 0 then Message ''x'' else if i = 1 then Message ''y''
           else Raises WebSocketException"
  let ?loads' = "\<lambda>s. if s = ''y'' then Some ?good else None"
  let ?rcv' = "\<lambda>i::nat. if i = 0 then Message ''{'' else if i = 1 then Message ''y''
           else Raises WebSocketException"
  let ?out = "[PrintValue (JStr ''spread.o1''), PrintValue (JInt 2), PrintBlank]"
  have key: "handle_message ?loads ''x'' = Inl KeyError"
    by (rule bad_frame_does_not_stop_loop [where bad = "''x''" and good = "''y''"
          and json_loads = ?loads and rcv = ?rcv and i = 0
          and message_json = ?good and m = "''x''" and d = "[(''payload'', JInt 1)]",
          THEN conjunct2, THEN conjunct2, THEN conjunct2, THEN conjunct2, rule_format])
       (simp_all add: handle_message_def subscript_def)
  have "recv_loop (Suc (Suc (Suc 0))) ?loads ?rcv 0 [] =
      recv_loop (Suc 0) ?loads ?rcv (Suc (Suc 0)) ([] @ [PrintError KeyError, PrintExc KeyError] @ ?out)"
    using bad_frame_does_not_stop_loop [where bad = "''x''" and good = "''y''"
          and json_loads = ?loads and rcv = ?rcv and i = 0 and fuel = "Suc 0" and tr = "[]"
          and e = KeyError and message_json = ?good,
          OF _ key, THEN conjunct2, THEN conjunct1]
    by (simp add: subscript_def)
  also have "\<dots> = Returned ([PrintError KeyError, PrintExc KeyError] @ ?out @
               [PrintExc WebSocketException])"
    by simp
  finally have first: "recv_loop 3 ?loads ?rcv 0 [] =
      Returned ([PrintError KeyError, PrintExc KeyError] @ ?out @ [PrintExc WebSocketException])"
    by (simp add: numeral_3_eq_3)
  have dec: "handle_message ?loads' ''{'' = Inl JSONDecodeError"
    by (rule bad_frame_does_not_stop_loop [where bad = "''{''" and good = "''y''"
          and json_loads = ?loads' and rcv = ?rcv' and i = 0
          and message_json = ?good and m = "''{''",
          THEN conjunct2, THEN conjunct2, THEN conjunct2, THEN conjunct1, rule_format])
       (simp_all add: handle_message_def subscript_def)
  have "recv_loop (Suc (Suc (Suc 0))) ?loads' ?rcv' 0 [] =
      recv_loop (Suc 0) ?loads' ?rcv' (Suc (Suc 0))
        ([] @ [PrintError JSONDecodeError, PrintExc JSONDecodeError] @ ?out)"
    using bad_frame_does_not_stop_loop [where bad = "''{''" and good = "''y''"
          and json_loads = ?loads' and rcv = ?rcv' and i = 0 and fuel = "Suc 0" and tr = "[]"
          and e = JSONDecodeError and message_json = ?good,
          OF _ dec, THEN conjunct2, THEN conjunct1]
    by (simp add: subscript_def)
  also have "\<dots> = Returned ([PrintError JSONDecodeError, PrintExc JSONDecodeError] @ ?out @
               [PrintExc WebSocketException])"
    by simp
  finally have second: "recv_loop 3 ?loads' ?rcv' 0 [] =
      Returned ([PrintError JSONDecodeError, PrintExc JSONDecodeError] @ ?out @
               [PrintExc WebSocketException])"
    by (simp add: numeral_3_eq_3)
  from first second show ?thesis by simp
qed

text \<open>
  C7. On a connection that was opened and subscribed, let the \<open>n\<close>-th call of \<^verbatim>\<open>recv\<close> be the
  first that raises a \<^verbatim>\<open>WebSocketException\<close>. Observed for more than \<open>n\<close> iterations, \<^verbatim>\<open>stream\<close>
  has returned: the traceback is printed, the loop is left, and \<^verbatim>\<open>close\<close> is called before
  the return (an exception of \<^verbatim>\<open>close\<close> is caught and printed). With \<open>n = 0\<close> nothing else
  happens between the subscription and the traceback. \<^verbatim>\<open>stream\<close> raises on no connection.
  So when this connection is that of the \<open>i\<close>-th task, awaiting the tasks lets no exception
  leave the orchestrator and cancels no task: the \<open>i\<close>-th task has returned as said, and
  every other task has done what \<^verbatim>\<open>stream\<close> does on its own connection.
\<close>

theorem transport_error_ends_task:
  assumes "ws_connect conn = None"
    and "ws_send conn = None"
    and "ws_recv conn n = Raises WebSocketException"
    and "\<forall>k<n. ws_recv conn k \<noteq> Raises WebSocketException"
    and "n < fuel"
  shows "(\<exists>tr. stream fuel json_loads conn t =
            Returned (Connect (uri t) # Send (subscription_payload t) # tr @
                      PrintExc WebSocketException # Close #
                      (case ws_close conn of None \<Rightarrow> [] | Some e \<Rightarrow> [PrintError e, PrintExc e]))) \<and>
         (n = 0 \<longrightarrow> stream fuel json_loads conn t =
            Returned ([Connect (uri t), Send (subscription_payload t),
                       PrintExc WebSocketException, Close] @
                      (case ws_close conn of None \<Rightarrow> [] | Some e \<Rightarrow> [PrintError e, PrintExc e]))) \<and>
         (\<forall>fuel' conn' t' e tr. stream fuel' json_loads conn' t' \<noteq> Raised e tr) \<and>
         (\<forall>sched tasks i. i < length tasks \<longrightarrow>
            snd (await_tasks json_loads (sched(i := (fuel, conn))) tasks) = None \<and>
            (\<exists>tr. fst (await_tasks json_loads (sched(i := (fuel, conn))) tasks) ! i =
               Ran (Returned (Connect (uri (tasks ! i)) # Send (subscription_payload (tasks ! i)) #
                      tr @ PrintExc WebSocketException # Close #
                      (case ws_close conn of None \<Rightarrow> [] | Some e \<Rightarrow> [PrintError e, PrintExc e])))) \<and>
            (\<forall>j. j \<noteq> i \<and> j < length tasks \<longrightarrow>
               fst (await_tasks json_loads (sched(i := (fuel, conn))) tasks) ! j =
                 Ran (stream (fst (sched j)) json_loads (snd (sched j)) (tasks ! j))))"
proof -
  have returns: "\<exists>tr. stream fuel json_loads conn t' =
            Returned (Connect (uri t') # Send (subscription_payload t') # tr @
                      PrintExc WebSocketException # Close #
                      (case ws_close conn of None \<Rightarrow> [] | Some e \<Rightarrow> [PrintError e, PrintExc e]))"
    for t'
  proof -
    from assms(5) have "0 \<le> n" "n - 0 < fuel" by simp_all
    from recv_loop_closes [where rcv = "ws_recv conn" and json_loads = json_loads
        and tr = "[Connect (uri t'), Send (subscription_payload t')]", OF assms(3,4) this]
    obtain rest where loop: "recv_loop fuel json_loads (ws_recv conn) 0
        [Connect (uri t'), Send (subscription_payload t')] =
        Returned ([Connect (uri t'), Send (subscription_payload t')] @ rest @
                  [PrintExc WebSocketException])"
      by blast
    have "stream fuel json_loads conn t' =
            Returned (Connect (uri t') # Send (subscription_payload t') # rest @
                      PrintExc WebSocketException # Close #
                      (case ws_close conn of None \<Rightarrow> [] | Some e \<Rightarrow> [PrintError e, PrintExc e]))"
      using assms(1,2) loop by (simp add: stream_def stream_body_def split: option.splits)
    then show ?thesis ..
  qed
  have zero: "n = 0 \<longrightarrow> stream fuel json_loads conn t =
            Returned ([Connect (uri t), Send (subscription_payload t),
                       PrintExc WebSocketException, Close] @
                      (case ws_close conn of None \<Rightarrow> [] | Some e \<Rightarrow> [PrintError e, PrintExc e]))"
  proof
    assume "n = 0"
    with assms(3,5) obtain f where f: "fuel = Suc f"
      and r: "ws_recv conn 0 = Raises WebSocketException"
      by (cases fuel) auto
    show "stream fuel json_loads conn t =
            Returned ([Connect (uri t), Send (subscription_payload t),
                       PrintExc WebSocketException, Close] @
                      (case ws_close conn of None \<Rightarrow> [] | Some e \<Rightarrow> [PrintError e, PrintExc e]))"
      using assms(1,2) r unfolding f
      by (simp add: stream_def stream_body_def split: option.splits)
  qed
  have never: "\<forall>fuel' conn' t' e tr. stream fuel' json_loads conn' t' \<noteq> Raised e tr"
    by (simp add: stream_not_raised)
  have siblings: "snd (await_tasks json_loads (sched(i := (fuel, conn))) tasks) = None \<and>
            (\<exists>tr. fst (await_tasks json_loads (sched(i := (fuel, conn))) tasks) ! i =
               Ran (Returned (Connect (uri (tasks ! i)) # Send (subscription_payload (tasks ! i)) #
                      tr @ PrintExc WebSocketException # Close #
                      (case ws_close conn of None \<Rightarrow> [] | Some e \<Rightarrow> [PrintError e, PrintExc e])))) \<and>
            (\<forall>j. j \<noteq> i \<and> j < length tasks \<longrightarrow>
               fst (await_tasks json_loads (sched(i := (fuel, conn))) tasks) ! j =
                 Ran (stream (fst (sched j)) json_loads (snd (sched j)) (tasks ! j)))"
    if "i < length tasks" for sched :: "nat \<Rightarrow> nat \<times> connection" and tasks :: "task list" and i
  proof -
    have nth: "fst (await_tasks json_loads (sched(i := (fuel, conn))) tasks) ! j =
        Ran (stream (fst ((sched(i := (fuel, conn))) j)) json_loads
               (snd ((sched(i := (fuel, conn))) j)) (tasks ! j))"
      if "j < length tasks" for j
      using that by (simp add: await_tasks_undisturbed nth_enumerate_eq)
    have "fst (await_tasks json_loads (sched(i := (fuel, conn))) tasks) ! i =
        Ran (stream fuel json_loads conn (tasks ! i))"
      using nth [OF \<open>i < length tasks\<close>] by simp
    with returns [of "tasks ! i"]
    have own: "\<exists>tr. fst (await_tasks json_loads (sched(i := (fuel, conn))) tasks) ! i =
               Ran (Returned (Connect (uri (tasks ! i)) # Send (subscription_payload (tasks ! i)) #
                      tr @ PrintExc WebSocketException # Close #
                      (case ws_close conn of None \<Rightarrow> [] | Some e \<Rightarrow> [PrintError e, PrintExc e])))"
      by auto
    have others: "\<forall>j. j \<noteq> i \<and> j < length tasks \<longrightarrow>
               fst (await_tasks json_loads (sched(i := (fuel, conn))) tasks) ! j =
                 Ran (stream (fst (sched j)) json_loads (snd (sched j)) (tasks ! j))"
      using nth by simp
    have "snd (await_tasks json_loads (sched(i := (fuel, conn))) tasks) = None"
      by (simp add: await_tasks_undisturbed)
    with own others show ?thesis by blast
  qed
  from returns [of t] zero never siblings show ?thesis by blast
qed

theorem transport_error_ends_task_witness:
  "stream 1 (\<lambda>s. None)
      \<lparr>ws_connect = None, ws_send = None, ws_recv = (\<lambda>i. Raises WebSocketException),
       ws_close = None\<rparr> filter_task
     = Returned [Connect ws_uri, Send filter_message, PrintExc WebSocketException, Close] \<and>
   (\<exists>tr. stream 2 (\<lambda>s. None)
      \<lparr>ws_connect = None, ws_send = None,
       ws_recv = (\<lambda>i. if i = 0 then Message ''x'' else Raises WebSocketException),
       ws_close = None\<rparr> filter_task
     = Returned (Connect ws_uri # Send filter_message # tr @ [PrintExc WebSocketException, Close])) \<and>
   await_tasks (\<lambda>s. Some (JObj [(''channel'', JStr ''game_state.g1''), (''payload'', JInt 7)]))
      ((\<lambda>k. (2, \<lparr>ws_connect = None, ws_send = None, ws_recv = (\<lambda>i. Message ''x''),
                  ws_close = None\<rparr>))
         (0 := (1, \<lparr>ws_connect = None, ws_send = None,
                     ws_recv = (\<lambda>i. Raises WebSocketException), ws_close = None\<rparr>)))
      [filter_task, subscribe_task ''game_state.g1'']
     = ([Ran (Returned [Connect ws_uri, Send filter_message, PrintExc WebSocketException, Close]),
         Ran (OutOfFuel [Connect ws_uri, Send (subscribe_message ''game_state.g1''),
                  PrintValue (JStr ''game_state.g1''), PrintValue (JInt 7), PrintBlank,
                  PrintValue (JStr ''game_state.g1''), PrintValue (JInt 7), PrintBlank])],
        None)"
proof -
  let ?none = "\<lambda>s::string. None :: json option"
  let ?loads = "\<lambda>s::string. Some (JObj [(''channel'', JStr ''game_state.g1''), (''payload'', JInt 7)])"
  let ?B = "\<lparr>ws_connect = None, ws_send = None, ws_recv = (\<lambda>i::nat. Raises WebSocketException),
       ws_close = None\<rparr>"
  let ?A = "\<lparr>ws_connect = None, ws_send = None,
       ws_recv = (\<lambda>i::nat. if i = 0 then Message ''x'' else Raises WebSocketException),
       ws_close = None\<rparr>"
  let ?C = "\<lparr>ws_connect = None, ws_send = None, ws_recv = (\<lambda>i::nat. Message ''x''),
            ws_close = None\<rparr>"
  have B: "stream 1 ?none ?B filter_task =
      Returned ([Connect (uri filter_task), Send (subscription_payload filter_task),
                       PrintExc WebSocketException, Close] @
                      (case ws_close ?B of None \<Rightarrow> [] | Some e \<Rightarrow> [PrintError e, PrintExc e]))"
    by (rule transport_error_ends_task [where conn = ?B and n = 0 and fuel = 1,
          THEN conjunct2, THEN conjunct1, rule_format]) simp_all
  have A: "\<exists>tr. stream 2 ?none ?A filter_task =
            Returned (Connect (uri filter_task) # Send (subscription_payload filter_task) # tr @
                      PrintExc WebSocketException # Close #
                      (case ws_close ?A of None \<Rightarrow> [] | Some e \<Rightarrow> [PrintError e, PrintExc e]))"
    by (rule transport_error_ends_task [where conn = ?A and n = 1 and fuel = 2,
          THEN conjunct1]) simp_all
  have pB: "ws_connect ?B = None" "ws_send ?B = None" "ws_recv ?B 0 = Raises WebSocketException"
    "\<forall>k<0::nat. ws_recv ?B k \<noteq> Raises WebSocketException" "(0::nat) < 1"
    by simp_all
  let ?sched = "\<lambda>k::nat. (2::nat, ?C)"
  let ?tasks = "[filter_task, subscribe_task ''game_state.g1'']"
  let ?run = "await_tasks ?loads (?sched(0 := (1, ?B))) ?tasks"
  have len: "(0::nat) < length ?tasks" by simp
  note all = transport_error_ends_task [where conn = ?B and n = 0 and fuel = 1
      and json_loads = ?loads and t = filter_task, OF pB,
      THEN conjunct2, THEN conjunct2, THEN conjunct2, rule_format, OF len]
  from all have none: "snd ?run = None" by (rule conjunct1)
  have one: "(1::nat) \<noteq> 0 \<and> 1 < length ?tasks" by simp
  note other = all [THEN conjunct2, THEN conjunct2, rule_format, OF one]
  from other have sib: "fst ?run ! 1 =
      Ran (OutOfFuel [Connect ws_uri, Send (subscribe_message ''game_state.g1''),
                  PrintValue (JStr ''game_state.g1''), PrintValue (JInt 7), PrintBlank,
                  PrintValue (JStr ''game_state.g1''), PrintValue (JInt 7), PrintBlank])"
    by (simp add: stream_def stream_body_def handle_message_def subscribe_task_def subscript_def
        numeral_2_eq_2)
  have own: "fst ?run ! 0 =
      Ran (Returned [Connect ws_uri, Send filter_message, PrintExc WebSocketException, Close])"
    by (simp add: await_tasks_undisturbed stream_def stream_body_def filter_task_def)
  have "length (fst ?run) = 2"
    by (simp add: await_tasks_undisturbed)
  with own sib have "fst ?run =
      [Ran (Returned [Connect ws_uri, Send filter_message, PrintExc WebSocketException, Close]),
       Ran (OutOfFuel [Connect ws_uri, Send (subscribe_message ''game_state.g1''),
                  PrintValue (JStr ''game_state.g1''), PrintValue (JInt 7), PrintBlank,
                  PrintValue (JStr ''game_state.g1''), PrintValue (JInt 7), PrintBlank])]"
    by (cases "fst ?run"; cases "tl (fst ?run)") auto
  with none have C: "?run =
     ([Ran (Returned [Connect ws_uri, Send filter_message, PrintExc WebSocketException, Close]),
       Ran (OutOfFuel [Connect ws_uri, Send (subscribe_message ''game_state.g1''),
                  PrintValue (JStr ''game_state.g1''), PrintValue (JInt 7), PrintBlank,
                  PrintValue (JStr ''game_state.g1''), PrintValue (JInt 7), PrintBlank])],
      None)"
    by (simp add: prod_eq_iff)
  from A B C show ?thesis by (simp add: filter_task_def)
qed

end
